theory Spec2Isabelle
  imports Main "HOL-Library.Word"
begin

section \<open>The forward render technique of the Nazara engine\<close>

text \<open>
  A shallow embedding of \<^verbatim>\<open>src/Nazara/Graphics/ForwardRenderTechnique.cpp\<close>.
  Calls into the renderer and into a shader are effects; a function of the model returns
  the list of effects it performs, in program order. Values that the code only copies
  (colours, floats, vectors, matrices) have an abstract type \<open>'a\<close>.

  A C \<^verbatim>\<open>int\<close> or \<^verbatim>\<open>unsigned int\<close> that takes part in uniform-location arithmetic is a
  \<open>32 word\<close>: the source adds an \<^verbatim>\<open>unsigned int\<close> offset to an \<^verbatim>\<open>int\<close> location and
  hands the sum back to an \<^verbatim>\<open>int\<close> parameter, which is addition modulo \<open>2 ^ 32\<close>; the
  signed comparisons of the source read the word with \<open>sint\<close> (\<open><s\<close>). A \<^verbatim>\<open>std::size_t\<close>
  count is a \<open>nat\<close>, and a subtraction of the source that may wrap around is written
  with \<open>size_sub\<close>.
\<close>

subsection \<open>Shader uniform cache\<close>

type_synonym location = "32 word"

text \<open>A shader: its address (the key of the cache) and what \<^verbatim>\<open>GetUniformLocation\<close>
  answers for a name; the answer for an unknown name is \<open>-1\<close>.\<close>

record Shader =
  shaderAddress :: nat
  GetUniformLocation :: "string \<Rightarrow> location"

record LightLocations =
  loc_type :: location
  loc_color :: location
  loc_factors :: location
  loc_lightViewProjMatrix :: location
  loc_parameters1 :: location
  loc_parameters2 :: location
  loc_parameters3 :: location
  loc_shadowMapping :: location

record LightUniforms =
  ubo :: bool
  locations :: LightLocations

record ShaderUniforms =
  shaderReleaseSlot :: "nat option"
  shaderUniformInvalidatedSlot :: "nat option"
  lightUniforms :: LightUniforms
  hasLightUniforms :: bool
  lightOffset :: location
  eyePosition :: location
  sceneAmbient :: location
  textureOverlay :: location

text \<open>The cache \<^verbatim>\<open>m_shaderUniforms\<close>, keyed by the address of the shader.\<close>

type_synonym uniform_cache = "nat \<rightharpoonup> ShaderUniforms"

text \<open>
  The body of the \<^verbatim>\<open>if (it == m_shaderUniforms.end())\<close> branch of \<^verbatim>\<open>GetShaderUniforms\<close>.
  \<open>u0\<close> is the default-constructed local \<^verbatim>\<open>ShaderUniforms uniforms;\<close>: the fields that
  the branch taken does not assign keep the value they have in \<open>u0\<close>. A slot connected to
  a signal of the shader holds the address of that shader. The second component of the
  result is the list of names passed to \<^verbatim>\<open>GetUniformLocation\<close>, in call order.
\<close>

definition ResolveShaderUniforms :: "ShaderUniforms \<Rightarrow> Shader \<Rightarrow> ShaderUniforms \<times> string list" where
  "ResolveShaderUniforms u0 shader =
    (let uniforms = u0\<lparr>shaderReleaseSlot := Some (shaderAddress shader),
                        shaderUniformInvalidatedSlot := Some (shaderAddress shader)\<rparr>;
         uniforms = uniforms\<lparr>eyePosition := GetUniformLocation shader ''EyePosition'',
                              sceneAmbient := GetUniformLocation shader ''SceneAmbient'',
                              textureOverlay := GetUniformLocation shader ''TextureOverlay''\<rparr>;
         type0Location = GetUniformLocation shader ''Lights[0].type'';
         type1Location = GetUniformLocation shader ''Lights[1].type'';
         names = [''EyePosition'', ''SceneAmbient'', ''TextureOverlay'',
                  ''Lights[0].type'', ''Lights[1].type'']
     in if 0 <s type0Location \<and> 0 <s type1Location
        then (uniforms\<lparr>hasLightUniforms := True,
                        lightOffset := type1Location - type0Location,
                        lightUniforms := \<lparr>ubo = False, locations = \<lparr>
                          loc_type = type0Location,
                          loc_color = GetUniformLocation shader ''Lights[0].color'',
                          loc_factors = GetUniformLocation shader ''Lights[0].factors'',
                          loc_lightViewProjMatrix = GetUniformLocation shader ''LightViewProjMatrix[0]'',
                          loc_parameters1 = GetUniformLocation shader ''Lights[0].parameters1'',
                          loc_parameters2 = GetUniformLocation shader ''Lights[0].parameters2'',
                          loc_parameters3 = GetUniformLocation shader ''Lights[0].parameters3'',
                          loc_shadowMapping = GetUniformLocation shader ''Lights[0].shadowMapping''\<rparr>\<rparr>\<rparr>,
              names @ [''Lights[0].color'', ''Lights[0].factors'', ''LightViewProjMatrix[0]'',
                       ''Lights[0].parameters1'', ''Lights[0].parameters2'',
                       ''Lights[0].parameters3'', ''Lights[0].shadowMapping''])
        else (uniforms\<lparr>hasLightUniforms := False\<rparr>, names))"

text \<open>\<^verbatim>\<open>GetShaderUniforms\<close>: the binding returned, the cache afterwards, and the names
  resolved by this call.\<close>

definition GetShaderUniforms ::
  "ShaderUniforms \<Rightarrow> Shader \<Rightarrow> uniform_cache \<Rightarrow> ShaderUniforms \<times> uniform_cache \<times> string list" where
  "GetShaderUniforms u0 shader m_shaderUniforms =
    (case m_shaderUniforms (shaderAddress shader) of
       Some uniforms \<Rightarrow> (uniforms, m_shaderUniforms, [])
     | None \<Rightarrow>
         (let (uniforms, names) = ResolveShaderUniforms u0 shader
          in (uniforms, m_shaderUniforms(shaderAddress shader \<mapsto> uniforms), names)))"

definition OnShaderInvalidated :: "Shader \<Rightarrow> uniform_cache \<Rightarrow> uniform_cache" where
  "OnShaderInvalidated shader m_shaderUniforms = m_shaderUniforms(shaderAddress shader := None)"

text \<open>
  Modelled from the spec: the delivery of a signal (\<^verbatim>\<open>Nazara/Core/Signal.hpp\<close> is not
  among the sources). The cache is "registered as a reactive subscriber to the shader's
  released and uniforms invalidated signals; on either, the cache entry is dropped": when
  a signal of a shader fires and the slot for that signal in the cache entry of the shader
  is connected to it, the handler \<^verbatim>\<open>OnShaderInvalidated\<close> runs for that shader.
\<close>

datatype shader_signal = OnShaderRelease | OnShaderUniformInvalidated

definition slot_of :: "shader_signal \<Rightarrow> ShaderUniforms \<Rightarrow> nat option" where
  "slot_of sig uniforms =
    (case sig of OnShaderRelease \<Rightarrow> shaderReleaseSlot uniforms
               | OnShaderUniformInvalidated \<Rightarrow> shaderUniformInvalidatedSlot uniforms)"

definition fire_signal :: "shader_signal \<Rightarrow> Shader \<Rightarrow> uniform_cache \<Rightarrow> uniform_cache" where
  "fire_signal sig shader m_shaderUniforms =
    (case m_shaderUniforms (shaderAddress shader) of
       None \<Rightarrow> m_shaderUniforms
     | Some uniforms \<Rightarrow>
         if slot_of sig uniforms = Some (shaderAddress shader)
         then OnShaderInvalidated shader m_shaderUniforms
         else m_shaderUniforms)"

text \<open>\<^verbatim>\<open>GetShaderUniforms\<close> is the only writer of the cache, and it stores an entry under
  the address of the shader that the two slots of the entry are connected to.\<close>

definition cache_connected :: "uniform_cache \<Rightarrow> bool" where
  "cache_connected m_shaderUniforms \<longleftrightarrow>
    (\<forall>a uniforms. m_shaderUniforms a = Some uniforms \<longrightarrow>
       shaderReleaseSlot uniforms = Some a \<and> shaderUniformInvalidatedSlot uniforms = Some a)"

text \<open>A location is valid when it is not \<open>-1\<close>: this is the test \<^verbatim>\<open>SendLightUniforms\<close>
  applies to \<^verbatim>\<open>locations.type\<close>, \<^verbatim>\<open>locations.shadowMapping\<close> and
  \<^verbatim>\<open>locations.lightViewProjMatrix\<close> before it writes to them.\<close>

definition valid_location :: "location \<Rightarrow> bool" where
  "valid_location l \<longleftrightarrow> l \<noteq> - 1"

subsection \<open>Lights and the light uniforms\<close>

datatype LightType = LightType_Directional | LightType_Point | LightType_Spot

text \<open>\<^verbatim>\<open>LightIndex\<close>: the kind of a selected light, its score, and its index in the list
  of its kind. The field \<^verbatim>\<open>type\<close> of the source is \<open>light_type\<close> here.\<close>

record 's LightIndex =
  light_type :: LightType
  score :: 's
  index :: nat

text \<open>The lights of the render queue, with the fields that the technique reads. A
  \<^verbatim>\<open>shadowMap\<close> pointer is \<open>None\<close> when null and the address of the texture otherwise.\<close>

record 'a DirectionalLight =
  dl_color :: 'a
  dl_ambientFactor :: 'a
  dl_diffuseFactor :: 'a
  dl_direction :: 'a
  dl_shadowMap :: "nat option"
  dl_transformMatrix :: 'a

record 'a PointLight =
  pl_color :: 'a
  pl_ambientFactor :: 'a
  pl_diffuseFactor :: 'a
  pl_position :: 'a
  pl_attenuation :: 'a
  pl_invRadius :: 'a
  pl_shadowMap :: "nat option"

record 'a SpotLight =
  sl_color :: 'a
  sl_ambientFactor :: 'a
  sl_diffuseFactor :: 'a
  sl_position :: 'a
  sl_attenuation :: 'a
  sl_direction :: 'a
  sl_invRadius :: 'a
  sl_innerAngleCosine :: 'a
  sl_outerAngleCosine :: 'a
  sl_shadowMap :: "nat option"
  sl_transformMatrix :: 'a

record 'a RenderQueue =
  directionalLights :: "'a DirectionalLight list"
  pointLights :: "'a PointLight list"
  spotLights :: "'a SpotLight list"

text \<open>The vectors built for a uniform: \<^verbatim>\<open>Vector2f(x, y)\<close>, \<^verbatim>\<open>Vector4f(v)\<close> of a
  three-component vector, \<^verbatim>\<open>Vector4f(v, w)\<close> and \<^verbatim>\<open>Vector4f(0.f, 0.f, 0.f, w)\<close>.\<close>

datatype 'a uniform_vector =
    Vector2f 'a 'a
  | Vector4f_of 'a
  | Vector4f_with 'a 'a
  | Vector4f_000 'a

text \<open>The texture unit \<^verbatim>\<open>Material::GetTextureUnit(TextureMap_Shadow2D_1 + index)\<close>, and
  likewise for the cube maps and for the overlay.\<close>

datatype texture_unit =
    TextureMap_Overlay
  | TextureMap_Shadow2D_1_plus nat
  | TextureMap_ShadowCube_1_plus nat

datatype BlendFunc = BlendFunc_One | BlendFunc_Other nat

datatype RendererComparison = RendererComparison_Equal | RendererComparison_Other nat

text \<open>The render states that the technique reads or writes.\<close>

record RenderStates =
  blending :: bool
  srcBlend :: BlendFunc
  dstBlend :: BlendFunc
  depthFunc :: RendererComparison

text \<open>
  The effects. \<open>SendLightType\<close> is the call \<^verbatim>\<open>SendInteger(location, lightInfo.type)\<close>.
  \<open>DrawCall\<close> is a call of \<^verbatim>\<open>drawFunc\<close>, \<open>DrawCallInstanced\<close> one of \<^verbatim>\<open>instancedDrawFunc\<close>
  with its instance count; both record the render states in force at the call.
\<close>

datatype 'a effect =
    SendInteger location int
  | SendLightType location LightType
  | SendBoolean location bool
  | SendColor location 'a
  | SendVector location "'a uniform_vector"
  | SendMatrix location 'a
  | SetTexture texture_unit nat
  | SetTextureSampler_shadow texture_unit
  | DrawCall RenderStates
  | DrawCallInstanced nat RenderStates

text \<open>Reading a vector out of range and dividing by zero are undefined behaviour in the
  source; the model returns them as errors.\<close>

datatype error = IndexOutOfRange | DivisionByZero

text \<open>The writes that the three kinds of light share after their own uniforms: the
  shadow-mapping flag, then the shadow map.\<close>

definition send_shadowMapping :: "LightLocations \<Rightarrow> location \<Rightarrow> nat option \<Rightarrow> 'a effect list" where
  "send_shadowMapping L uniformOffset shadowMap =
    (if loc_shadowMapping L \<noteq> - 1
     then [SendBoolean (loc_shadowMapping L + uniformOffset) (shadowMap \<noteq> None)]
     else [])"

definition bind_shadowMap2D :: "LightLocations \<Rightarrow> nat \<Rightarrow> nat option \<Rightarrow> 'a \<Rightarrow> 'a effect list" where
  "bind_shadowMap2D L idx shadowMap transformMatrix =
    (case shadowMap of
       None \<Rightarrow> []
     | Some texture \<Rightarrow>
         [SetTexture (TextureMap_Shadow2D_1_plus idx) texture,
          SetTextureSampler_shadow (TextureMap_Shadow2D_1_plus idx)] @
         (if loc_lightViewProjMatrix L \<noteq> - 1
          then [SendMatrix (loc_lightViewProjMatrix L + of_nat idx) transformMatrix]
          else []))"

definition bind_shadowMapCube :: "nat \<Rightarrow> nat option \<Rightarrow> 'a effect list" where
  "bind_shadowMapCube idx shadowMap =
    (case shadowMap of
       None \<Rightarrow> []
     | Some texture \<Rightarrow>
         [SetTexture (TextureMap_ShadowCube_1_plus idx) texture,
          SetTextureSampler_shadow (TextureMap_ShadowCube_1_plus idx)])"

text \<open>\<^verbatim>\<open>SendLightUniforms(shader, uniforms, index, lightIndex, uniformOffset)\<close>, reading the
  selected lights \<^verbatim>\<open>m_lights\<close> and the lists of the render queue. The parameter \<^verbatim>\<open>index\<close>
  of the source is \<open>idx\<close>.\<close>

definition SendLightUniforms ::
  "'s LightIndex list \<Rightarrow> 'a RenderQueue \<Rightarrow> LightUniforms \<Rightarrow> nat \<Rightarrow> nat \<Rightarrow> location
    \<Rightarrow> error + 'a effect list" where
  "SendLightUniforms m_lights m_renderQueue uniforms idx lightIndex uniformOffset =
    (let L = locations uniforms in
     if lightIndex < length m_lights then
       (let lightInfo = m_lights ! lightIndex;
            sendType = SendLightType (loc_type L + uniformOffset) (light_type lightInfo)
        in case light_type lightInfo of
          LightType_Directional \<Rightarrow>
            if index lightInfo < length (directionalLights m_renderQueue) then
              (let light = directionalLights m_renderQueue ! index lightInfo
               in Inr ([sendType,
                        SendColor (loc_color L + uniformOffset) (dl_color light),
                        SendVector (loc_factors L + uniformOffset)
                          (Vector2f (dl_ambientFactor light) (dl_diffuseFactor light)),
                        SendVector (loc_parameters1 L + uniformOffset)
                          (Vector4f_of (dl_direction light))] @
                       send_shadowMapping L uniformOffset (dl_shadowMap light) @
                       bind_shadowMap2D L idx (dl_shadowMap light) (dl_transformMatrix light)))
            else Inl IndexOutOfRange
        | LightType_Point \<Rightarrow>
            if index lightInfo < length (pointLights m_renderQueue) then
              (let light = pointLights m_renderQueue ! index lightInfo
               in Inr ([sendType,
                        SendColor (loc_color L + uniformOffset) (pl_color light),
                        SendVector (loc_factors L + uniformOffset)
                          (Vector2f (pl_ambientFactor light) (pl_diffuseFactor light)),
                        SendVector (loc_parameters1 L + uniformOffset)
                          (Vector4f_with (pl_position light) (pl_attenuation light)),
                        SendVector (loc_parameters2 L + uniformOffset)
                          (Vector4f_000 (pl_invRadius light))] @
                       send_shadowMapping L uniformOffset (pl_shadowMap light) @
                       bind_shadowMapCube idx (pl_shadowMap light)))
            else Inl IndexOutOfRange
        | LightType_Spot \<Rightarrow>
            if index lightInfo < length (spotLights m_renderQueue) then
              (let light = spotLights m_renderQueue ! index lightInfo
               in Inr ([sendType,
                        SendColor (loc_color L + uniformOffset) (sl_color light),
                        SendVector (loc_factors L + uniformOffset)
                          (Vector2f (sl_ambientFactor light) (sl_diffuseFactor light)),
                        SendVector (loc_parameters1 L + uniformOffset)
                          (Vector4f_with (sl_position light) (sl_attenuation light)),
                        SendVector (loc_parameters2 L + uniformOffset)
                          (Vector4f_with (sl_direction light) (sl_invRadius light)),
                        SendVector (loc_parameters3 L + uniformOffset)
                          (Vector2f (sl_innerAngleCosine light) (sl_outerAngleCosine light))] @
                       send_shadowMapping L uniformOffset (sl_shadowMap light) @
                       bind_shadowMap2D L idx (sl_shadowMap light) (sl_transformMatrix light)))
            else Inl IndexOutOfRange)
     else
       Inr (if loc_type L \<noteq> - 1
            then [SendInteger (loc_type L + uniformOffset) (- 1)]
            else []))"

subsection \<open>Choosing the lights of an object\<close>

text \<open>
  The suitability tests and the scores are inline functions of the class that are not
  among the sources; they are parameters here, as is the sphere
  \<^verbatim>\<open>Spheref(matrix.GetTranslation() + squaredBoundingSphere.GetPosition(), squaredBoundingSphere.radius)\<close>
  that \<^verbatim>\<open>DrawOpaqueModels\<close> builds for an instance (\<open>instanceSphere\<close>). \<open>'o\<close> is the type
  of a sphere and \<open>'s\<close> the type of a score: a \<^verbatim>\<open>float\<close> in the source, compared with
  \<^verbatim>\<open><\<close>, and a linear order here (no score is a NaN).
\<close>

record ('o, 'a, 's) LightFunctions =
  IsDirectionalLightSuitable :: "'o \<Rightarrow> 'a DirectionalLight \<Rightarrow> bool"
  ComputeDirectionalLightScore :: "'o \<Rightarrow> 'a DirectionalLight \<Rightarrow> 's"
  IsPointLightSuitable :: "'o \<Rightarrow> 'a PointLight \<Rightarrow> bool"
  ComputePointLightScore :: "'o \<Rightarrow> 'a PointLight \<Rightarrow> 's"
  IsSpotLightSuitable :: "'o \<Rightarrow> 'a SpotLight \<Rightarrow> bool"
  ComputeSpotLightScore :: "'o \<Rightarrow> 'a SpotLight \<Rightarrow> 's"
  instanceSphere :: "'a \<Rightarrow> 'o \<Rightarrow> 'o"

text \<open>\<^verbatim>\<open>std::sort(first, last, comp)\<close> orders the range by \<open>cmp\<close>; which of the orders that
  \<open>cmp\<close> allows it produces is not fixed by the standard. The model inserts the elements
  one by one, from the last to the first, each before the first element it is less than.\<close>

fun insert_sorted :: "('b \<Rightarrow> 'b \<Rightarrow> bool) \<Rightarrow> 'b \<Rightarrow> 'b list \<Rightarrow> 'b list" where
  "insert_sorted cmp x [] = [x]"
| "insert_sorted cmp x (y # ys) =
     (if cmp x y then x # y # ys else y # insert_sorted cmp x ys)"

definition std_sort :: "('b \<Rightarrow> 'b \<Rightarrow> bool) \<Rightarrow> 'b list \<Rightarrow> 'b list" where
  "std_sort cmp xs = foldr (insert_sorted cmp) xs []"

text \<open>One of the three loops of \<^verbatim>\<open>ChooseLights\<close>: the entries pushed for the lights of one
  kind, in index order.\<close>

definition push_suitable ::
  "LightType \<Rightarrow> ('o \<Rightarrow> 'l \<Rightarrow> bool) \<Rightarrow> ('o \<Rightarrow> 'l \<Rightarrow> 's) \<Rightarrow> 'o \<Rightarrow> 'l list \<Rightarrow> 's LightIndex list" where
  "push_suitable kind suitable compute object lights =
    map (\<lambda>i. \<lparr>light_type = kind, score = compute object (lights ! i), index = i\<rparr>)
      (filter (\<lambda>i. suitable object (lights ! i)) [0..<length lights])"

text \<open>\<^verbatim>\<open>ChooseLights(object, includeDirectionalLights)\<close>: the new value of \<^verbatim>\<open>m_lights\<close>.\<close>

definition ChooseLights ::
  "('o, 'a, 's::linorder) LightFunctions \<Rightarrow> 'a RenderQueue \<Rightarrow> 'o \<Rightarrow> bool \<Rightarrow> 's LightIndex list" where
  "ChooseLights F m_renderQueue object includeDirectionalLights =
    (let m_lights = [];
         m_lights =
           (if includeDirectionalLights
            then m_lights @ push_suitable LightType_Directional (IsDirectionalLightSuitable F)
                   (ComputeDirectionalLightScore F) object (directionalLights m_renderQueue)
            else m_lights);
         m_lights = m_lights @ push_suitable LightType_Point (IsPointLightSuitable F)
                      (ComputePointLightScore F) object (pointLights m_renderQueue);
         m_lights = m_lights @ push_suitable LightType_Spot (IsSpotLightSuitable F)
                      (ComputeSpotLightScore F) object (spotLights m_renderQueue)
     in std_sort (\<lambda>light1 light2. score light1 < score light2) m_lights)"

text \<open>What an entry of \<^verbatim>\<open>m_lights\<close> says about the light it stands for: the index is
  inside the list of its kind, and the light there passes the suitability test of its
  kind for the object and has the score of the entry.\<close>

definition selected_for ::
  "('o, 'a, 's) LightFunctions \<Rightarrow> 'a RenderQueue \<Rightarrow> 'o \<Rightarrow> 's LightIndex \<Rightarrow> bool" where
  "selected_for F m_renderQueue object l =
    (case light_type l of
       LightType_Directional \<Rightarrow>
         index l < length (directionalLights m_renderQueue) \<and>
         IsDirectionalLightSuitable F object (directionalLights m_renderQueue ! index l) \<and>
         score l = ComputeDirectionalLightScore F object (directionalLights m_renderQueue ! index l)
     | LightType_Point \<Rightarrow>
         index l < length (pointLights m_renderQueue) \<and>
         IsPointLightSuitable F object (pointLights m_renderQueue ! index l) \<and>
         score l = ComputePointLightScore F object (pointLights m_renderQueue ! index l)
     | LightType_Spot \<Rightarrow>
         index l < length (spotLights m_renderQueue) \<and>
         IsSpotLightSuitable F object (spotLights m_renderQueue ! index l) \<and>
         score l = ComputeSpotLightScore F object (spotLights m_renderQueue ! index l))"

subsection \<open>Opaque models: the passes of one mesh\<close>

text \<open>Effects in sequence; the first error ends the sequence.\<close>

fun seq_effects :: "(error + 'e list) list \<Rightarrow> error + 'e list" where
  "seq_effects [] = Inr []"
| "seq_effects (r # rs) =
     (case r of
        Inl e \<Rightarrow> Inl e
      | Inr es \<Rightarrow> (case seq_effects rs of Inl e \<Rightarrow> Inl e | Inr es' \<Rightarrow> Inr (es @ es')))"

text \<open>A \<^verbatim>\<open>std::size_t\<close> passed for an \<^verbatim>\<open>unsigned int\<close> parameter.\<close>

definition to_unsigned_int :: "nat \<Rightarrow> nat" where
  "to_unsigned_int n = n mod 2 ^ 32"

text \<open>
  The loop
  \<^verbatim>\<open>for (i = 0; i < NAZARA_GRAPHICS_MAX_LIGHT_PER_PASS; ++i) SendLightUniforms(shader, shaderUniforms->lightUniforms, i, lightIndex++, shaderUniforms->lightOffset * i);\<close>
  with the macro as the parameter \<open>maxLightPerPass\<close> (\<^verbatim>\<open>Nazara/Graphics/Config.hpp\<close> is not
  among the sources). It leaves \<^verbatim>\<open>lightIndex\<close> larger by \<open>maxLightPerPass\<close>.
\<close>

definition send_pass_lights ::
  "nat \<Rightarrow> 's LightIndex list \<Rightarrow> 'a RenderQueue \<Rightarrow> ShaderUniforms \<Rightarrow> nat \<Rightarrow> error + 'a effect list" where
  "send_pass_lights maxLightPerPass m_lights m_renderQueue shaderUniforms lightIndex =
    seq_effects
      (map (\<lambda>i. SendLightUniforms m_lights m_renderQueue (lightUniforms shaderUniforms) i
                   (to_unsigned_int (lightIndex + i)) (lightOffset shaderUniforms * of_nat i))
         [0..<maxLightPerPass])"

text \<open>\<^verbatim>\<open>(lightCount == 0) ? 1 : (lightCount - 1) / NAZARA_GRAPHICS_MAX_LIGHT_PER_PASS + 1\<close>\<close>

definition passCount :: "nat \<Rightarrow> nat \<Rightarrow> error + nat" where
  "passCount maxLightPerPass lightCount =
    (if lightCount = 0 then Inr 1
     else if maxLightPerPass = 0 then Inl DivisionByZero
     else Inr ((lightCount - 1) div maxLightPerPass + 1))"

text \<open>What the pass with \<^verbatim>\<open>pass == 1\<close> does before it sends its lights:
  \<^verbatim>\<open>Enable(RendererParameter_Blend, true); SetBlendFunc(BlendFunc_One, BlendFunc_One); SetDepthFunc(RendererComparison_Equal);\<close>\<close>

definition additive_pass :: "RenderStates \<Rightarrow> RenderStates" where
  "additive_pass rs =
    rs\<lparr>blending := True, srcBlend := BlendFunc_One, dstBlend := BlendFunc_One,
       depthFunc := RendererComparison_Equal\<rparr>"

text \<open>
  The pass loop of the path without instancing, for one instance:
  \<^verbatim>\<open>for (pass = 0; pass < passCount; ++pass)\<close>. The first numeric argument after the
  shader uniforms is the number of passes still to run, \<^verbatim>\<open>passCount - pass\<close>. The variable
  \<^verbatim>\<open>lightCount\<close> is only decremented inside the loop and never read again, and is left
  out. The result is the effects and the render states after the loop.
\<close>

fun light_passes ::
  "nat \<Rightarrow> 's LightIndex list \<Rightarrow> 'a RenderQueue \<Rightarrow> ShaderUniforms \<Rightarrow> nat \<Rightarrow> nat \<Rightarrow> nat
    \<Rightarrow> RenderStates \<Rightarrow> error + 'a effect list \<times> RenderStates" where
  "light_passes maxLightPerPass m_lights q su 0 pass lightIndex rs = Inr ([], rs)"
| "light_passes maxLightPerPass m_lights q su (Suc n) pass lightIndex rs =
     (let rs1 = (if pass = 1 then additive_pass rs else rs)
      in case send_pass_lights maxLightPerPass m_lights q su lightIndex of
           Inl e \<Rightarrow> Inl e
         | Inr sends \<Rightarrow>
             (case light_passes maxLightPerPass m_lights q su n (pass + 1)
                     (lightIndex + maxLightPerPass) rs1 of
                Inl e \<Rightarrow> Inl e
              | Inr (rest, rs2) \<Rightarrow> Inr (sends @ DrawCall rs1 # rest, rs2)))"

text \<open>
  One iteration of \<^verbatim>\<open>for (const Matrix4f& matrix : instances)\<close> in the branch without
  instancing for a shader with light uniforms: choose the lights of the instance (the
  second argument of \<^verbatim>\<open>ChooseLights\<close> has its default, true), run the passes, then
  \<^verbatim>\<open>Enable(RendererParameter_Blend, false); SetDepthFunc(oldDepthFunc);\<close>.
  The call \<^verbatim>\<open>Renderer::SetMatrix(MatrixType_World, matrix)\<close> touches none of the render
  states of the model and is left out.
  The result is the effects, the new \<^verbatim>\<open>m_lights\<close> and the render states afterwards.
\<close>

definition DrawOpaqueModel_lit ::
  "nat \<Rightarrow> ('o, 'a, 's::linorder) LightFunctions \<Rightarrow> 'a RenderQueue \<Rightarrow> ShaderUniforms \<Rightarrow> 'o \<Rightarrow> 'a
    \<Rightarrow> RenderStates \<Rightarrow> error + 'a effect list \<times> 's LightIndex list \<times> RenderStates" where
  "DrawOpaqueModel_lit maxLightPerPass F q su squaredBoundingSphere matrix rs =
    (let m_lights = ChooseLights F q (instanceSphere F matrix squaredBoundingSphere) True;
         lightCount = length m_lights;
         lightIndex = 0;
         oldDepthFunc = depthFunc rs
     in case passCount maxLightPerPass lightCount of
          Inl e \<Rightarrow> Inl e
        | Inr n \<Rightarrow>
            (case light_passes maxLightPerPass m_lights q su n 0 lightIndex rs of
               Inl e \<Rightarrow> Inl e
             | Inr (effects, rs1) \<Rightarrow>
                 Inr (effects, m_lights, rs1\<lparr>blending := False, depthFunc := oldDepthFunc\<rparr>)))"

text \<open>The render states after a submission that succeeded.\<close>

definition states_after :: "error + 'e \<times> 'l \<times> RenderStates \<Rightarrow> RenderStates option" where
  "states_after r = (case r of Inl e \<Rightarrow> None | Inr (effects, m_lights, rs) \<Rightarrow> Some rs)"

text \<open>The render states at the draw calls among some effects, in order: one per pass.\<close>

fun draw_states :: "'a effect list \<Rightarrow> RenderStates list" where
  "draw_states [] = []"
| "draw_states (DrawCall rs # es) = rs # draw_states es"
| "draw_states (e # es) = draw_states es"

text \<open>The kinds of the lights whose data some effects send, in order: the data of a
  light starts with its type.\<close>

fun lights_sent :: "'a effect list \<Rightarrow> LightType list" where
  "lights_sent [] = []"
| "lights_sent (SendLightType l t # es) = t # lights_sent es"
| "lights_sent (e # es) = lights_sent es"

subsection \<open>Opaque models: the passes of one mesh with instancing\<close>

text \<open>
  The loop \<^verbatim>\<open>while (instanceCount > 0)\<close> that fills the instance buffer and draws, for one
  pass. An instanced draw is recorded with its number of instances. The loop need not
  end (an instance buffer of no vertices never takes an instance), and then the result
  is \<open>None\<close>.
\<close>

partial_function (option) draw_instance_chunks ::
  "nat \<Rightarrow> nat \<Rightarrow> RenderStates \<Rightarrow> 'a effect list option" where
  "draw_instance_chunks instanceCount maxInstanceCount rs =
    (if instanceCount > 0 then
       (let renderedInstanceCount = min instanceCount maxInstanceCount
        in Option.bind
             (draw_instance_chunks (instanceCount - renderedInstanceCount) maxInstanceCount rs)
             (\<lambda>rest. Some (DrawCallInstanced renderedInstanceCount rs # rest)))
     else Some [])"

text \<open>
  The pass loop of the instancing path. As in \<open>light_passes\<close>, the argument before
  \<open>pass\<close> is the number of passes still to run. The lights are sent, and \<^verbatim>\<open>lightIndex\<close>
  moves on, only for a shader with light uniforms; \<^verbatim>\<open>lightCount\<close> and
  \<^verbatim>\<open>renderedLightCount\<close> are written and never read for an effect, and are left out.
\<close>

fun instanced_passes ::
  "nat \<Rightarrow> 's LightIndex list \<Rightarrow> 'a RenderQueue \<Rightarrow> ShaderUniforms \<Rightarrow> nat \<Rightarrow> nat \<Rightarrow> nat \<Rightarrow> nat
    \<Rightarrow> nat \<Rightarrow> RenderStates \<Rightarrow> (error + 'a effect list \<times> RenderStates) option" where
  "instanced_passes maxLightPerPass m_lights q su instanceCount maxInstanceCount 0 pass lightIndex rs =
     Some (Inr ([], rs))"
| "instanced_passes maxLightPerPass m_lights q su instanceCount maxInstanceCount (Suc n) pass lightIndex rs =
     (case (if hasLightUniforms su
            then (case send_pass_lights maxLightPerPass m_lights q su lightIndex of
                    Inl e \<Rightarrow> Inl e
                  | Inr sends \<Rightarrow>
                      Inr (sends, if pass = 1 then additive_pass rs else rs,
                           lightIndex + maxLightPerPass))
            else Inr ([], rs, lightIndex)) of
        Inl e \<Rightarrow> Some (Inl e)
      | Inr (sends, rs1, lightIndex1) \<Rightarrow>
          (case draw_instance_chunks instanceCount maxInstanceCount rs1 of
             None \<Rightarrow> None
           | Some draws \<Rightarrow>
               (case instanced_passes maxLightPerPass m_lights q su instanceCount
                       maxInstanceCount n (pass + 1) lightIndex1 rs1 of
                  None \<Rightarrow> None
                | Some (Inl e) \<Rightarrow> Some (Inl e)
                | Some (Inr (rest, rs2)) \<Rightarrow> Some (Inr (sends @ draws @ rest, rs2)))))"

text \<open>
  The instancing branch for one mesh with at least one instance. The number of passes
  comes from the number of directional lights of the queue. The branch does not call
  \<^verbatim>\<open>ChooseLights\<close>: \<^verbatim>\<open>m_lights\<close>, which \<^verbatim>\<open>SendLightUniforms\<close> reads, is an argument here,
  the member as the last call of \<^verbatim>\<open>ChooseLights\<close> left it (empty in a technique that
  never called it).
\<close>

definition DrawOpaqueModels_instanced ::
  "nat \<Rightarrow> 's LightIndex list \<Rightarrow> 'a RenderQueue \<Rightarrow> ShaderUniforms \<Rightarrow> nat \<Rightarrow> nat \<Rightarrow> RenderStates
    \<Rightarrow> (error + 'a effect list \<times> RenderStates) option" where
  "DrawOpaqueModels_instanced maxLightPerPass m_lights q su instanceCount maxInstanceCount rs =
    (let lightCount = length (directionalLights q);
         lightIndex = 0;
         oldDepthFunc = depthFunc rs
     in case passCount maxLightPerPass lightCount of
          Inl e \<Rightarrow> Some (Inl e)
        | Inr n \<Rightarrow>
            (case instanced_passes maxLightPerPass m_lights q su instanceCount maxInstanceCount
                    n 0 lightIndex rs of
               None \<Rightarrow> None
             | Some (Inl e) \<Rightarrow> Some (Inl e)
             | Some (Inr (effects, rs1)) \<Rightarrow>
                 Some (Inr (effects, rs1\<lparr>blending := False, depthFunc := oldDepthFunc\<rparr>))))"

text \<open>The kinds of the lights that a submission sent, in order.\<close>

definition lights_sent_by :: "(error + 'a effect list \<times> RenderStates) option \<Rightarrow> LightType list" where
  "lights_sent_by r = (case r of Some (Inr (effects, rs)) \<Rightarrow> lights_sent effects | _ \<Rightarrow> [])"

subsection \<open>Sprites: the streaming vertex buffer\<close>

text \<open>\<^verbatim>\<open>UInt32 s_maxQuads = std::numeric_limits<UInt16>::max() / 6;\<close>\<close>

definition s_maxQuads :: nat where
  "s_maxQuads = 65535 div 6"

text \<open>\<^verbatim>\<open>std::min<std::size_t>(s_maxQuads, m_spriteBuffer.GetVertexCount() / 4)\<close>, the
  number of sprites that one fill of the buffer takes, from the vertex count of the
  sprite buffer.\<close>

definition maxSpriteCount :: "nat \<Rightarrow> nat" where
  "maxSpriteCount vertexCount = min s_maxQuads (vertexCount div 4)"

text \<open>Subtraction of two \<^verbatim>\<open>std::size_t\<close> values, below \<open>2 ^ 64\<close> both.\<close>

definition size_sub :: "nat \<Rightarrow> nat \<Rightarrow> nat" where
  "size_sub a b = (if b \<le> a then a - b else a + 2 ^ 64 - b)"

text \<open>
  A chain of sprites (\<^verbatim>\<open>SpriteChain_XYZ_Color_UV\<close>, and \<^verbatim>\<open>UnbatchedSpriteData\<close> for the
  fields the packer reads): \<^verbatim>\<open>vertices\<close> is a pointer, and \<open>vertices chain i\<close> is the
  vertex \<^verbatim>\<open>vertices[i]\<close> it leads to; a sprite is four vertices.
\<close>

record 'v SpriteChain =
  vertices :: "nat \<Rightarrow> 'v"
  spriteCount :: nat

text \<open>\<^verbatim>\<open>std::memcpy(vertices, chain.vertices + spriteChainOffset * 4, 4 * count * sizeof(VertexStruct_XYZ_Color_UV))\<close>:
  the vertices copied.\<close>

definition memcpy_quads :: "'v SpriteChain \<Rightarrow> nat \<Rightarrow> nat \<Rightarrow> 'v list" where
  "memcpy_quads chain spriteChainOffset count =
    map (vertices chain) [spriteChainOffset * 4 ..< spriteChainOffset * 4 + 4 * count]"

text \<open>The effects of a packer: a fill of the mapped buffer, from its start, with the
  vertices written between mapping and unmapping it, and
  \<^verbatim>\<open>Renderer::DrawIndexedPrimitives(PrimitiveMode_TriangleList, firstIndex, indexCount)\<close>,
  whose two numbers are \<^verbatim>\<open>unsigned int\<close>.\<close>

datatype 'v sprite_effect = FillBuffer "'v list" | DrawIndexedPrimitives nat nat

subsection \<open>Basic sprites\<close>

text \<open>
  The inner \<^verbatim>\<open>do ... while (spriteCount < maxSpriteCount && spriteChain < spriteChainCount)\<close>
  of \<^verbatim>\<open>DrawBasicSprites\<close>, entered at the head of its body. The local \<^verbatim>\<open>spriteCount\<close> of the
  source is \<open>filled\<close> here and \<^verbatim>\<open>maxSpriteCount\<close> is \<open>maxSprites\<close>. The result is the
  vertices in the buffer, \<open>filled\<close>, \<^verbatim>\<open>spriteChain\<close> and \<^verbatim>\<open>spriteChainOffset\<close> at the exit
  of the loop; \<open>None\<close> when the loop does not end.
\<close>

partial_function (option) fill_sprite_chains ::
  "nat \<Rightarrow> 'v SpriteChain list \<Rightarrow> 'v list \<Rightarrow> nat \<Rightarrow> nat \<Rightarrow> nat
    \<Rightarrow> (error + 'v list \<times> nat \<times> nat \<times> nat) option" where
  "fill_sprite_chains maxSprites spriteChainVector buffer filled spriteChain spriteChainOffset =
    (if spriteChain < length spriteChainVector then
       (let currentChain = spriteChainVector ! spriteChain;
            count = min (size_sub maxSprites filled)
                        (size_sub (spriteCount currentChain) spriteChainOffset);
            buffer = buffer @ memcpy_quads currentChain spriteChainOffset count;
            filled = filled + count;
            spriteChainOffset = spriteChainOffset + count;
            (spriteChain, spriteChainOffset) =
              (if spriteChainOffset = spriteCount currentChain
               then (spriteChain + 1, 0)
               else (spriteChain, spriteChainOffset))
        in if filled < maxSprites \<and> spriteChain < length spriteChainVector
           then fill_sprite_chains maxSprites spriteChainVector buffer filled spriteChain
                  spriteChainOffset
           else Some (Inr (buffer, filled, spriteChain, spriteChainOffset)))
     else Some (Inl IndexOutOfRange))"

text \<open>The outer \<^verbatim>\<open>do ... while (spriteChain < spriteChainCount)\<close>: map the buffer, fill
  it, unmap it, draw \<^verbatim>\<open>spriteCount * 6\<close> indices. \<open>effects\<close> are the effects so far.\<close>

partial_function (option) draw_sprite_chains ::
  "nat \<Rightarrow> 'v SpriteChain list \<Rightarrow> 'v sprite_effect list \<Rightarrow> nat \<Rightarrow> nat
    \<Rightarrow> (error + 'v sprite_effect list) option" where
  "draw_sprite_chains maxSprites spriteChainVector effects spriteChain spriteChainOffset =
    (case fill_sprite_chains maxSprites spriteChainVector [] 0 spriteChain spriteChainOffset of
       None \<Rightarrow> None
     | Some (Inl e) \<Rightarrow> Some (Inl e)
     | Some (Inr (buffer, filled, spriteChain, spriteChainOffset)) \<Rightarrow>
         (let effects = effects @
                [FillBuffer buffer, DrawIndexedPrimitives 0 (to_unsigned_int (filled * 6))]
          in if spriteChain < length spriteChainVector
             then draw_sprite_chains maxSprites spriteChainVector effects spriteChain
                    spriteChainOffset
             else Some (Inr effects)))"

text \<open>
  \<^verbatim>\<open>DrawBasicSprites\<close> for the sprite chains of one overlay of one material: the block
  \<^verbatim>\<open>if (spriteChainCount > 0) { ... }\<close>. The walk over pipelines, materials and overlays
  around it runs this block once per overlay; the binding of shader, material and
  texture that the walk does shares no variable with the block and is left out.
\<close>

definition DrawBasicSprites_chains ::
  "nat \<Rightarrow> 'v SpriteChain list \<Rightarrow> (error + 'v sprite_effect list) option" where
  "DrawBasicSprites_chains vertexCount spriteChainVector =
    (let spriteChainCount = length spriteChainVector
     in if spriteChainCount > 0
        then draw_sprite_chains (maxSpriteCount vertexCount) spriteChainVector [] 0 0
        else Some (Inr []))"

subsection \<open>Depth-sorted sprites\<close>

text \<open>
  The loop \<^verbatim>\<open>for (auto it2 = it; it2 != layer.depthSortedSprites.end(); ++it2)\<close> that
  fills the buffer. The second argument is what is left of \<^verbatim>\<open>depthSortedSprites\<close> from
  \<open>it2\<close> on. The result is the vertices written, \<^verbatim>\<open>spriteChainOffset\<close> after the loop, and
  the position of the chain at which the loop broke off (\<open>None\<close>: \<^verbatim>\<open>split\<close> is false).
\<close>

fun fill_ordered ::
  "'v SpriteChain list \<Rightarrow> nat list \<Rightarrow> nat \<Rightarrow> 'v list \<Rightarrow> nat \<Rightarrow> nat
    \<Rightarrow> error + 'v list \<times> nat \<times> nat option" where
  "fill_ordered depthSortedSpriteData [] it2 buffer availableSpriteSpace spriteChainOffset =
     Inr (buffer, spriteChainOffset, None)"
| "fill_ordered depthSortedSpriteData (i # rest) it2 buffer availableSpriteSpace spriteChainOffset =
     (if i < length depthSortedSpriteData then
        (let spriteData = depthSortedSpriteData ! i;
             count = min availableSpriteSpace
                         (size_sub (spriteCount spriteData) spriteChainOffset);
             buffer = buffer @ memcpy_quads spriteData spriteChainOffset count;
             availableSpriteSpace = availableSpriteSpace - count
         in if count \<noteq> spriteCount spriteData
            then Inr (buffer, spriteChainOffset + count, Some it2)
            else fill_ordered depthSortedSpriteData rest (it2 + 1) buffer availableSpriteSpace 0)
      else Inl IndexOutOfRange)"

text \<open>The variables of \<^verbatim>\<open>DrawOrderedSprites\<close> that live across iterations. An iterator
  is a position in \<^verbatim>\<open>depthSortedSprites\<close>; \<^verbatim>\<open>end()\<close> is its length.\<close>

record ordered_state =
  it :: nat
  updateVertexBuffer :: bool
  alreadyDrawnCount :: nat
  spriteIndex :: nat
  spriteChainOffset :: nat
  splitChainIt :: nat

text \<open>The block \<^verbatim>\<open>if (updateVertexBuffer) { ... }\<close>.\<close>

definition update_vertex_buffer ::
  "nat \<Rightarrow> 'v SpriteChain list \<Rightarrow> nat list \<Rightarrow> ordered_state
    \<Rightarrow> error + 'v sprite_effect list \<times> ordered_state" where
  "update_vertex_buffer maxSprites depthSortedSpriteData depthSortedSprites st =
    (if updateVertexBuffer st then
       (case fill_ordered depthSortedSpriteData (drop (it st) depthSortedSprites) (it st) []
               maxSprites (spriteChainOffset st) of
          Inl e \<Rightarrow> Inl e
        | Inr (buffer, offset, split) \<Rightarrow>
            Inr ([FillBuffer buffer],
                 st\<lparr>spriteChainOffset := offset,
                    splitChainIt := (case split of Some it2 \<Rightarrow> it2
                                      | None \<Rightarrow> length depthSortedSprites),
                    spriteIndex := 0,
                    updateVertexBuffer := False\<rparr>))
     else Inr ([], st))"

text \<open>From \<^verbatim>\<open>std::size_t spriteCount;\<close> to the end of the loop body: the draw call of the
  chain at \<open>it\<close>. The local \<^verbatim>\<open>spriteCount\<close> is \<open>count\<close> here.\<close>

definition draw_ordered_chain ::
  "'v SpriteChain \<Rightarrow> ordered_state \<Rightarrow> 'v sprite_effect \<times> ordered_state" where
  "draw_ordered_chain spriteData st =
    (let (count, st) =
           (if it st \<noteq> splitChainIt st
            then (size_sub (spriteCount spriteData) (alreadyDrawnCount st),
                  st\<lparr>alreadyDrawnCount := 0, it := it st + 1\<rparr>)
            else (spriteChainOffset st,
                  st\<lparr>alreadyDrawnCount := spriteChainOffset st, updateVertexBuffer := True\<rparr>))
     in (DrawIndexedPrimitives (to_unsigned_int (spriteIndex st * 6)) (to_unsigned_int (count * 6)),
         st\<lparr>spriteIndex := spriteIndex st + count\<rparr>))"

text \<open>
  The loop \<^verbatim>\<open>for (auto it = begin(); it != end();)\<close>. The iterator only moves forward, one
  chain at a time, so \<^verbatim>\<open>it != end()\<close> is \<open>it < length\<close>. The binding of material, pipeline,
  shader and overlay in the body shares no variable with the packer and is left out.
  The result is the effects and the variables at the exit; \<open>None\<close> when the loop does
  not end.
\<close>

partial_function (option) ordered_loop ::
  "nat \<Rightarrow> 'v SpriteChain list \<Rightarrow> nat list \<Rightarrow> 'v sprite_effect list \<Rightarrow> ordered_state
    \<Rightarrow> (error + 'v sprite_effect list \<times> ordered_state) option" where
  "ordered_loop maxSprites depthSortedSpriteData depthSortedSprites effects st =
    (if it st < length depthSortedSprites then
       (case update_vertex_buffer maxSprites depthSortedSpriteData depthSortedSprites st of
          Inl e \<Rightarrow> Some (Inl e)
        | Inr (fill, st) \<Rightarrow>
            (let i = depthSortedSprites ! it st
             in if i < length depthSortedSpriteData then
                  (let (draw, st) = draw_ordered_chain (depthSortedSpriteData ! i) st
                   in ordered_loop maxSprites depthSortedSpriteData depthSortedSprites
                        (effects @ fill @ [draw]) st)
                else Some (Inl IndexOutOfRange)))
     else Some (Inr (effects, st)))"

definition DrawOrderedSprites ::
  "nat \<Rightarrow> 'v SpriteChain list \<Rightarrow> nat list
    \<Rightarrow> (error + 'v sprite_effect list \<times> ordered_state) option" where
  "DrawOrderedSprites vertexCount depthSortedSpriteData depthSortedSprites =
    ordered_loop (maxSpriteCount vertexCount) depthSortedSpriteData depthSortedSprites []
      \<lparr>it = 0, updateVertexBuffer = True, alreadyDrawnCount = 0, spriteIndex = 0,
       spriteChainOffset = 0, splitChainIt = length depthSortedSprites\<rparr>"


text \<open>A state from which the loop refills the buffer at a chain of which it has
  already drawn a part.\<close>

definition stuck :: "'v SpriteChain list \<Rightarrow> nat list \<Rightarrow> ordered_state \<Rightarrow> bool" where
  "stuck depthSortedSpriteData depthSortedSprites st \<longleftrightarrow>
     it st < length depthSortedSprites \<and>
     depthSortedSprites ! it st < length depthSortedSpriteData \<and>
     updateVertexBuffer st \<and>
     0 < spriteChainOffset st \<and>
     spriteChainOffset st \<le> spriteCount (depthSortedSpriteData ! (depthSortedSprites ! it st))"

subsection \<open>What a packer has to deliver\<close>

text \<open>The vertices of a chain, the number of sprites of a list of chains and their
  vertices in order.\<close>

definition chain_data :: "'v SpriteChain \<Rightarrow> 'v list" where
  "chain_data chain = memcpy_quads chain 0 (spriteCount chain)"

definition total_quads :: "'v SpriteChain list \<Rightarrow> nat" where
  "total_quads cs = sum_list (map spriteCount cs)"

definition all_data :: "'v SpriteChain list \<Rightarrow> 'v list" where
  "all_data cs = concat (map chain_data cs)"

text \<open>What is left from a cursor on: from sprite \<open>off\<close> of chain \<open>c\<close> to the end.\<close>

definition rest_data :: "'v SpriteChain list \<Rightarrow> nat \<Rightarrow> nat \<Rightarrow> 'v list" where
  "rest_data cs c off =
    (if c < length cs
     then memcpy_quads (cs ! c) off (spriteCount (cs ! c) - off) @
          all_data (drop (Suc c) cs)
     else [])"

definition rest_quads :: "'v SpriteChain list \<Rightarrow> nat \<Rightarrow> nat \<Rightarrow> nat" where
  "rest_quads cs c off =
    (if c < length cs
     then (spriteCount (cs ! c) - off) + total_quads (drop (Suc c) cs)
     else 0)"

text \<open>A cursor as the packer leaves it: before a sprite of a chain, at the start of an
  empty chain, or at the end of the list.\<close>

definition cursor_ok :: "'v SpriteChain list \<Rightarrow> nat \<Rightarrow> nat \<Rightarrow> bool" where
  "cursor_ok cs c off \<longleftrightarrow>
     (c < length cs \<and> (off < spriteCount (cs ! c) \<or> (off = 0 \<and> spriteCount (cs ! c) = 0))) \<or>
     (c = length cs \<and> off = 0)"

fun buffer_fills :: "'v sprite_effect list \<Rightarrow> 'v list list" where
  "buffer_fills [] = []"
| "buffer_fills (FillBuffer vs # es) = vs # buffer_fills es"
| "buffer_fills (e # es) = buffer_fills es"

fun draw_calls :: "'v sprite_effect list \<Rightarrow> (nat \<times> nat) list" where
  "draw_calls [] = []"
| "draw_calls (DrawIndexedPrimitives first count # es) = (first, count) # draw_calls es"
| "draw_calls (e # es) = draw_calls es"

text \<open>The number of sprites of a draw call: six indices per sprite.\<close>

definition quads_drawn :: "nat \<times> nat \<Rightarrow> nat" where
  "quads_drawn d = snd d div 6"

subsection \<open>Initialisation\<close>







text \<open>Every entry of \<^verbatim>\<open>m_lights\<close> has its index inside the list of its kind.\<close>

definition lights_in_range :: "'a RenderQueue \<Rightarrow> 's LightIndex list \<Rightarrow> bool" where
  "lights_in_range q m_lights \<longleftrightarrow>
    (\<forall>l \<in> set m_lights.
       index l < (case light_type l of
                    LightType_Directional \<Rightarrow> length (directionalLights q)
                  | LightType_Point \<Rightarrow> length (pointLights q)
                  | LightType_Spot \<Rightarrow> length (spotLights q)))"

subsection \<open>Concrete inputs\<close>

text \<open>A shader given by its address and the table of the uniforms it has.\<close>

definition shader_of :: "nat \<Rightarrow> (string \<times> location) list \<Rightarrow> Shader" where
  "shader_of a table =
    \<lparr>shaderAddress = a,
     GetUniformLocation = (\<lambda>name. case map_of table name of Some l \<Rightarrow> l | None \<Rightarrow> - 1)\<rparr>"

definition no_light_locations :: LightLocations where
  "no_light_locations =
    \<lparr>loc_type = - 1, loc_color = - 1, loc_factors = - 1, loc_lightViewProjMatrix = - 1,
     loc_parameters1 = - 1, loc_parameters2 = - 1, loc_parameters3 = - 1,
     loc_shadowMapping = - 1\<rparr>"

definition blank_uniforms :: ShaderUniforms where
  "blank_uniforms =
    \<lparr>shaderReleaseSlot = None, shaderUniformInvalidatedSlot = None,
     lightUniforms = \<lparr>ubo = False, locations = no_light_locations\<rparr>,
     hasLightUniforms = False, lightOffset = 0,
     eyePosition = - 1, sceneAmbient = - 1, textureOverlay = - 1\<rparr>"

text \<open>A shader whose light array starts at location 0, with 8 locations per light.\<close>

definition shader_lights_at_0 :: Shader where
  "shader_lights_at_0 = shader_of 1 [(''Lights[0].type'', 0), (''Lights[1].type'', 8)]"

text \<open>A shader whose light array starts at location 4, with 8 locations per light.\<close>

definition shader_lights_at_4 :: Shader where
  "shader_lights_at_4 =
    shader_of 2 [(''EyePosition'', 1), (''SceneAmbient'', 2),
                 (''Lights[0].type'', 4), (''Lights[1].type'', 12)]"

text \<open>The binding resolved for the shader with its light array at location 4.\<close>

definition lit_uniforms :: ShaderUniforms where
  "lit_uniforms = fst (ResolveShaderUniforms blank_uniforms shader_lights_at_4)"

text \<open>Lights on a line: a sphere is its centre, a light without position is always
  suitable with score 0, a light with a position is suitable within distance 10 of the
  centre and its score is that distance.\<close>

definition distance :: "nat \<Rightarrow> nat \<Rightarrow> nat" where
  "distance x y = (if x \<le> y then y - x else x - y)"

definition line_lights :: "(nat, nat, nat) LightFunctions" where
  "line_lights =
    \<lparr>IsDirectionalLightSuitable = (\<lambda>object light. True),
     ComputeDirectionalLightScore = (\<lambda>object light. 0),
     IsPointLightSuitable = (\<lambda>object light. distance object (pl_position light) \<le> 10),
     ComputePointLightScore = (\<lambda>object light. distance object (pl_position light)),
     IsSpotLightSuitable = (\<lambda>object light. distance object (sl_position light) \<le> 10),
     ComputeSpotLightScore = (\<lambda>object light. distance object (sl_position light)),
     instanceSphere = (\<lambda>matrix sphere. matrix + sphere)\<rparr>"

definition sun :: "nat DirectionalLight" where
  "sun = \<lparr>dl_color = 1, dl_ambientFactor = 2, dl_diffuseFactor = 3, dl_direction = 4,
          dl_shadowMap = None, dl_transformMatrix = 5\<rparr>"

definition lamp :: "nat \<Rightarrow> nat PointLight" where
  "lamp x = \<lparr>pl_color = 1, pl_ambientFactor = 2, pl_diffuseFactor = 3, pl_position = x,
             pl_attenuation = 4, pl_invRadius = 5, pl_shadowMap = None\<rparr>"

definition torch :: "nat \<Rightarrow> nat SpotLight" where
  "torch x = \<lparr>sl_color = 1, sl_ambientFactor = 2, sl_diffuseFactor = 3, sl_position = x,
              sl_attenuation = 4, sl_direction = 5, sl_invRadius = 6,
              sl_innerAngleCosine = 7, sl_outerAngleCosine = 8, sl_shadowMap = None,
              sl_transformMatrix = 9\<rparr>"

text \<open>One directional light, point lights at 9, 40 and 4, a spot light at 7.\<close>

definition street :: "nat RenderQueue" where
  "street = \<lparr>directionalLights = [sun], pointLights = [lamp 9, lamp 40, lamp 4],
             spotLights = [torch 7]\<rparr>"

definition states_blending :: RenderStates where
  "states_blending =
    \<lparr>blending = True, srcBlend = BlendFunc_Other 0, dstBlend = BlendFunc_Other 1,
     depthFunc = RendererComparison_Other 0\<rparr>"

definition states_opaque :: RenderStates where
  "states_opaque =
    \<lparr>blending = False, srcBlend = BlendFunc_Other 0, dstBlend = BlendFunc_Other 1,
     depthFunc = RendererComparison_Other 0\<rparr>"

text \<open>A queue with one directional light and no other light.\<close>

definition daylight :: "nat RenderQueue" where
  "daylight = \<lparr>directionalLights = [sun], pointLights = [], spotLights = []\<rparr>"


text \<open>A chain of \<open>n\<close> sprites whose vertices are the numbers from \<open>base\<close> on.\<close>

definition quads_of :: "nat \<Rightarrow> nat \<Rightarrow> nat SpriteChain" where
  "quads_of base n = \<lparr>vertices = (\<lambda>i. base + i), spriteCount = n\<rparr>"

section \<open>Properties\<close>

subsection \<open>The shader uniform cache\<close>

lemma ResolveShaderUniforms_slots:
  "shaderReleaseSlot (fst (ResolveShaderUniforms u0 shader)) = Some (shaderAddress shader) \<and>
   shaderUniformInvalidatedSlot (fst (ResolveShaderUniforms u0 shader)) = Some (shaderAddress shader)"
  by (simp add: ResolveShaderUniforms_def Let_def)

lemma ResolveShaderUniforms_names:
  "set [''EyePosition'', ''SceneAmbient'', ''TextureOverlay'', ''Lights[0].type'', ''Lights[1].type'']
    \<subseteq> set (snd (ResolveShaderUniforms u0 shader))"
  by (simp add: ResolveShaderUniforms_def Let_def)

lemma GetShaderUniforms_connected:
  assumes "cache_connected c"
  shows "cache_connected (fst (snd (GetShaderUniforms u0 shader c)))"
proof (cases "c (shaderAddress shader)")
  case None
  then show ?thesis
    using assms ResolveShaderUniforms_slots [of u0 shader]
    by (auto simp: GetShaderUniforms_def cache_connected_def split_beta Let_def)
next
  case (Some u)
  then show ?thesis
    using assms by (simp add: GetShaderUniforms_def)
qed

lemma ResolveShaderUniforms_light:
  "hasLightUniforms (fst (ResolveShaderUniforms u0 shader)) \<longleftrightarrow>
     0 <s GetUniformLocation shader ''Lights[0].type'' \<and>
     0 <s GetUniformLocation shader ''Lights[1].type''"
  by (simp add: ResolveShaderUniforms_def Let_def)

lemma ResolveShaderUniforms_lightOffset:
  "hasLightUniforms (fst (ResolveShaderUniforms u0 shader)) \<Longrightarrow>
   lightOffset (fst (ResolveShaderUniforms u0 shader)) =
     GetUniformLocation shader ''Lights[1].type'' - GetUniformLocation shader ''Lights[0].type''"
  by (simp add: ResolveShaderUniforms_def Let_def split: if_splits)

text \<open>
  Claim C6. Let a call of \<^verbatim>\<open>GetShaderUniforms\<close> for a shader \<open>s\<close> return the binding \<open>u\<close>
  and leave the cache \<open>c'\<close>. A second call, with no invalidation in between, returns the
  same binding \<open>u\<close>, leaves the cache as it is and resolves no uniform location. When
  the release signal or the uniform-invalidation signal of \<open>s\<close> then fires, the entry of
  \<open>s\<close> is removed, and the next call for that shader resolves the locations again: its
  binding is the freshly resolved one, from what the shader answers at that time, and
  the list of the names it resolves is not empty.
\<close>

theorem GetShaderUniforms_idempotent_until_invalidated:
  assumes "cache_connected c"
    and "GetShaderUniforms u0 s c = (u, c', names)"
    and "shaderAddress s' = shaderAddress s"
  shows "GetShaderUniforms u1 s c' = (u, c', []) \<and>
         fire_signal sig s c' (shaderAddress s) = None \<and>
         fst (GetShaderUniforms u1 s' (fire_signal sig s c')) = fst (ResolveShaderUniforms u1 s') \<and>
         snd (snd (GetShaderUniforms u1 s' (fire_signal sig s c'))) = snd (ResolveShaderUniforms u1 s') \<and>
         snd (ResolveShaderUniforms u1 s') \<noteq> []"
proof -
  have entry: "c' (shaderAddress s) = Some u"
    using assms(2) by (auto simp: GetShaderUniforms_def split_beta Let_def split: option.splits)
  have "cache_connected c'"
    using GetShaderUniforms_connected [OF assms(1), of u0 s] assms(2) by simp
  with entry have slots: "slot_of sig u = Some (shaderAddress s)"
    by (cases sig) (auto simp: cache_connected_def slot_of_def)
  have again: "GetShaderUniforms u1 s c' = (u, c', [])"
    using entry by (simp add: GetShaderUniforms_def)
  have fired: "fire_signal sig s c' = c'(shaderAddress s := None)"
    using entry slots by (simp add: fire_signal_def OnShaderInvalidated_def)
  have gone: "fire_signal sig s c' (shaderAddress s') = None"
    using fired assms(3) by simp
  have fresh: "GetShaderUniforms u1 s' (fire_signal sig s c') =
      (fst (ResolveShaderUniforms u1 s'),
       (fire_signal sig s c')(shaderAddress s' \<mapsto> fst (ResolveShaderUniforms u1 s')),
       snd (ResolveShaderUniforms u1 s'))"
    using gone by (simp add: GetShaderUniforms_def split_beta)
  have "snd (ResolveShaderUniforms u1 s') \<noteq> []"
    using ResolveShaderUniforms_names [of u1 s'] by auto
  with again fired fresh show ?thesis by simp
qed


theorem GetShaderUniforms_idempotent_until_invalidated_witness:
  "cache_connected Map.empty \<and>
   shaderAddress shader_lights_at_4 = shaderAddress shader_lights_at_4 \<and>
   (let r = GetShaderUniforms blank_uniforms shader_lights_at_4 Map.empty;
        c' = fst (snd r)
    in GetShaderUniforms blank_uniforms shader_lights_at_4 c' = (fst r, c', []) \<and>
       fire_signal OnShaderRelease shader_lights_at_4 c' (shaderAddress shader_lights_at_4) = None \<and>
       snd (snd (GetShaderUniforms blank_uniforms shader_lights_at_4
                   (fire_signal OnShaderRelease shader_lights_at_4 c'))) \<noteq> [])"
proof -
  have c: "cache_connected Map.empty"
    by (simp add: cache_connected_def)
  obtain u c' names where
    r: "GetShaderUniforms blank_uniforms shader_lights_at_4 Map.empty = (u, c', names)"
    by (cases "GetShaderUniforms blank_uniforms shader_lights_at_4 Map.empty") auto
  show ?thesis
    using c r
      GetShaderUniforms_idempotent_until_invalidated
        [OF c r refl, of blank_uniforms OnShaderRelease]
    by (simp add: Let_def)
qed

text \<open>
  Claim C7, at a shader for which it fails. \<^verbatim>\<open>GetShaderUniforms\<close> tests
  \<^verbatim>\<open>type0Location > 0 && type1Location > 0\<close>. For a shader whose \<^verbatim>\<open>Lights[0].type\<close> is at
  location 0 and whose \<^verbatim>\<open>Lights[1].type\<close> is at location 8, both locations are valid (not
  \<open>-1\<close>), and the binding built has \<^verbatim>\<open>hasLightUniforms\<close> false all the same, whatever the
  default-constructed binding was.
\<close>

theorem hasLightUniforms_false_at_location_0:
  "valid_location (GetUniformLocation shader_lights_at_0 ''Lights[0].type'') \<and>
   valid_location (GetUniformLocation shader_lights_at_0 ''Lights[1].type'') \<and>
   \<not> hasLightUniforms (fst (ResolveShaderUniforms u0 shader_lights_at_0)) \<and>
   \<not> hasLightUniforms (fst (GetShaderUniforms u0 shader_lights_at_0 Map.empty))"
  by (simp add: valid_location_def shader_lights_at_0_def shader_of_def
      ResolveShaderUniforms_def GetShaderUniforms_def Let_def)

subsection \<open>Light slots beyond the selected lights\<close>

text \<open>
  Claim C10. When \<^verbatim>\<open>lightIndex\<close> is at least the number of selected lights,
  \<^verbatim>\<open>SendLightUniforms\<close> reads no light list (the call succeeds and has the same effects
  for every render queue, the empty one included), and its only effect is to send the
  integer \<open>-1\<close> to the type location of the slot, which it does exactly when that
  location is valid.
\<close>

theorem SendLightUniforms_disables_slot:
  assumes "length m_lights \<le> lightIndex"
  shows "SendLightUniforms m_lights m_renderQueue uniforms idx lightIndex uniformOffset =
         Inr (if valid_location (loc_type (locations uniforms))
              then [SendInteger (loc_type (locations uniforms) + uniformOffset) (- 1)]
              else [])"
  using assms by (simp add: SendLightUniforms_def valid_location_def Let_def)

theorem SendLightUniforms_disables_slot_witness:
  "length ([] :: nat LightIndex list) \<le> 0 \<and>
   SendLightUniforms ([] :: nat LightIndex list)
     (\<lparr>directionalLights = [], pointLights = [], spotLights = []\<rparr> :: nat RenderQueue)
     \<lparr>ubo = False, locations = no_light_locations\<lparr>loc_type := 5\<rparr>\<rparr> 0 0 8 =
   Inr [SendInteger 13 (- 1)]"
  using SendLightUniforms_disables_slot
    [of "[] :: nat LightIndex list" 0
        "\<lparr>directionalLights = [], pointLights = [], spotLights = []\<rparr> :: nat RenderQueue"
        "\<lparr>ubo = False, locations = no_light_locations\<lparr>loc_type := 5\<rparr>\<rparr>" 0 8]
  by (simp add: valid_location_def no_light_locations_def)

subsection \<open>The lights chosen for an object\<close>

lemma set_insert_sorted: "set (insert_sorted cmp x xs) = insert x (set xs)"
  by (induction xs) auto

lemma set_std_sort: "set (std_sort cmp xs) = set xs"
  by (induction xs) (simp_all add: std_sort_def set_insert_sorted)

lemma sorted_insert_sorted:
  fixes f :: "'b \<Rightarrow> 's::linorder"
  shows "sorted_wrt (\<lambda>a b. f a \<le> f b) xs \<Longrightarrow>
         sorted_wrt (\<lambda>a b. f a \<le> f b) (insert_sorted (\<lambda>a b. f a < f b) x xs)"
  by (induction xs) (auto simp: set_insert_sorted)

lemma sorted_std_sort:
  fixes f :: "'b \<Rightarrow> 's::linorder"
  shows "sorted_wrt (\<lambda>a b. f a \<le> f b) (std_sort (\<lambda>a b. f a < f b) xs)"
  by (induction xs) (simp_all add: std_sort_def sorted_insert_sorted)

lemma push_suitable_entry:
  "l \<in> set (push_suitable kind suitable compute object lights) \<Longrightarrow>
   light_type l = kind \<and> index l < length lights \<and> suitable object (lights ! index l) \<and>
   score l = compute object (lights ! index l)"
  by (auto simp: push_suitable_def)

lemma ChooseLights_entry:
  assumes "l \<in> set (ChooseLights F q object inc)"
  shows "selected_for F q object l \<and> (\<not> inc \<longrightarrow> light_type l \<noteq> LightType_Directional)"
proof -
  from assms consider
      (d) "inc" "l \<in> set (push_suitable LightType_Directional (IsDirectionalLightSuitable F)
                   (ComputeDirectionalLightScore F) object (directionalLights q))"
    | (p) "l \<in> set (push_suitable LightType_Point (IsPointLightSuitable F)
                   (ComputePointLightScore F) object (pointLights q))"
    | (s) "l \<in> set (push_suitable LightType_Spot (IsSpotLightSuitable F)
                   (ComputeSpotLightScore F) object (spotLights q))"
    by (auto simp: ChooseLights_def set_std_sort Let_def split: if_splits)
  then show ?thesis
  proof cases
    case d
    from push_suitable_entry [OF d(2)] d(1) show ?thesis
      by (simp add: selected_for_def)
  next
    case p
    from push_suitable_entry [OF p] show ?thesis
      by (simp add: selected_for_def)
  next
    case s
    from push_suitable_entry [OF s] show ?thesis
      by (simp add: selected_for_def)
  qed
qed

text \<open>
  Claim C4. For every render queue and every sphere, each entry of the list built by
  \<^verbatim>\<open>ChooseLights\<close> stands for a light of the queue that passes the suitability test of
  its kind for the sphere, the list is sorted by non-decreasing score, and when
  \<^verbatim>\<open>includeDirectionalLights\<close> is false no entry is a directional light.
\<close>

theorem ChooseLights_suitable_sorted:
  "(\<forall>l \<in> set (ChooseLights F q object inc). selected_for F q object l) \<and>
   sorted_wrt (\<lambda>l1 l2. score l1 \<le> score l2) (ChooseLights F q object inc) \<and>
   (\<not> inc \<longrightarrow> (\<forall>l \<in> set (ChooseLights F q object inc). light_type l \<noteq> LightType_Directional))"
  using ChooseLights_entry [of _ F q object inc]
  by (auto simp: ChooseLights_def Let_def sorted_std_sort)

theorem ChooseLights_suitable_sorted_witness:
  "ChooseLights line_lights street 5 False =
     [\<lparr>light_type = LightType_Point, score = 1, index = 2\<rparr>,
      \<lparr>light_type = LightType_Spot, score = 2, index = 0\<rparr>,
      \<lparr>light_type = LightType_Point, score = 4, index = 0\<rparr>] \<and>
   list_all (selected_for line_lights street 5) (ChooseLights line_lights street 5 False) \<and>
   sorted_wrt (\<lambda>l1 l2. score l1 \<le> score l2) (ChooseLights line_lights street 5 False) \<and>
   list_all (\<lambda>l. light_type l \<noteq> LightType_Directional) (ChooseLights line_lights street 5 False)"
proof -
  have "ChooseLights line_lights street 5 False =
     [\<lparr>light_type = LightType_Point, score = 1, index = 2\<rparr>,
      \<lparr>light_type = LightType_Spot, score = 2, index = 0\<rparr>,
      \<lparr>light_type = LightType_Point, score = 4, index = 0\<rparr>]"
    by (simp add: ChooseLights_def push_suitable_def std_sort_def line_lights_def street_def
        lamp_def torch_def distance_def upt_rec)
  then show ?thesis
    using ChooseLights_suitable_sorted [of line_lights street 5 False]
    by (simp add: list_all_iff)
qed

subsection \<open>The passes of an object without instancing\<close>

lemma draw_states_append: "draw_states (xs @ ys) = draw_states xs @ draw_states ys"
  by (induction xs rule: draw_states.induct) simp_all

lemma draw_states_shadow:
  "draw_states (send_shadowMapping L off sm) = []"
  "draw_states (bind_shadowMap2D L i sm tm) = []"
  "draw_states (bind_shadowMapCube i sm) = []"
  by (simp_all add: send_shadowMapping_def bind_shadowMap2D_def bind_shadowMapCube_def
      split: option.splits)

lemma SendLightUniforms_in_range:
  assumes "lights_in_range q m_lights"
  shows "\<exists>es. SendLightUniforms m_lights q lu i li off = Inr es \<and> draw_states es = []"
proof (cases "li < length m_lights")
  case False
  then show ?thesis
    by (simp add: SendLightUniforms_def Let_def)
next
  case True
  then have "m_lights ! li \<in> set m_lights" by simp
  with assms have r: "index (m_lights ! li) <
      (case light_type (m_lights ! li) of
         LightType_Directional \<Rightarrow> length (directionalLights q)
       | LightType_Point \<Rightarrow> length (pointLights q)
       | LightType_Spot \<Rightarrow> length (spotLights q))"
    unfolding lights_in_range_def by blast
  show ?thesis
    using True r
    by (cases "light_type (m_lights ! li)")
       (simp_all add: SendLightUniforms_def Let_def draw_states_append draw_states_shadow)
qed

lemma seq_effects_no_draw:
  assumes "\<forall>r \<in> set rs. \<exists>es. r = Inr es \<and> draw_states es = []"
  shows "\<exists>es. seq_effects rs = Inr es \<and> draw_states es = []"
  using assms
proof (induction rs)
  case Nil
  then show ?case by simp
next
  case (Cons r rs)
  then obtain es es' where "r = Inr es" "draw_states es = []"
    "seq_effects rs = Inr es'" "draw_states es' = []"
    by auto
  then show ?case by (simp add: draw_states_append)
qed

lemma send_pass_lights_in_range:
  assumes "lights_in_range q m_lights"
  shows "\<exists>es. send_pass_lights m m_lights q su li = Inr es \<and> draw_states es = []"
  unfolding send_pass_lights_def
  by (rule seq_effects_no_draw) (use SendLightUniforms_in_range [OF assms] in auto)

lemma light_passes_step:
  assumes "send_pass_lights m m_lights q su li = Inr sends"
    and "light_passes m m_lights q su n (pass + 1) (li + m) rs1 = Inr (rest, rs2)"
    and "rs1 = (if pass = 1 then additive_pass rs else rs)"
  shows "light_passes m m_lights q su (Suc n) pass li rs = Inr (sends @ DrawCall rs1 # rest, rs2)"
  using assms by (simp add: Let_def)

lemma light_passes_later:
  assumes "lights_in_range q m_lights" and "2 \<le> pass"
  shows "\<exists>es. light_passes m m_lights q su n pass li rs = Inr (es, rs) \<and>
              draw_states es = replicate n rs"
  using assms(2)
proof (induction n arbitrary: pass li)
  case 0
  then show ?case by simp
next
  case (Suc n)
  obtain sends where s: "send_pass_lights m m_lights q su li = Inr sends" "draw_states sends = []"
    using send_pass_lights_in_range [OF assms(1)] by blast
  from Suc.prems have "2 \<le> pass + 1" by simp
  from Suc.IH [OF this, of "li + m"] obtain es where
    es: "light_passes m m_lights q su n (pass + 1) (li + m) rs = Inr (es, rs)"
    "draw_states es = replicate n rs" by blast
  from Suc.prems have "rs = (if pass = 1 then additive_pass rs else rs)" by simp
  from light_passes_step [OF s(1) es(1) this] s(2) es(2) show ?case
    by (simp add: draw_states_append del: light_passes.simps)
qed

lemma light_passes_second:
  assumes "lights_in_range q m_lights"
  shows "\<exists>es. light_passes m m_lights q su (Suc n) 1 li rs = Inr (es, additive_pass rs) \<and>
              draw_states es = replicate (Suc n) (additive_pass rs)"
proof -
  obtain sends where s: "send_pass_lights m m_lights q su li = Inr sends" "draw_states sends = []"
    using send_pass_lights_in_range [OF assms(1)] by blast
  have "(2::nat) \<le> 1 + 1" by simp
  from light_passes_later [OF assms this] obtain es where
    es: "light_passes m m_lights q su n (1 + 1) (li + m) (additive_pass rs) = Inr (es, additive_pass rs)"
    "draw_states es = replicate n (additive_pass rs)"
    by blast
  have "additive_pass rs = (if (1::nat) = 1 then additive_pass rs else rs)" by simp
  from light_passes_step [OF s(1) es(1) this] s(2) es(2) show ?thesis
    by (simp add: draw_states_append del: light_passes.simps)
qed

lemma light_passes_first:
  assumes "lights_in_range q m_lights"
  shows "\<exists>es. light_passes m m_lights q su (Suc n) 0 li rs =
                 Inr (es, if n = 0 then rs else additive_pass rs) \<and>
              draw_states es = rs # replicate n (additive_pass rs)"
proof -
  obtain sends where s: "send_pass_lights m m_lights q su li = Inr sends" "draw_states sends = []"
    using send_pass_lights_in_range [OF assms(1)] by blast
  have "\<exists>es. light_passes m m_lights q su n (0 + 1) (li + m) rs =
                 Inr (es, if n = 0 then rs else additive_pass rs) \<and>
              draw_states es = replicate n (additive_pass rs)"
  proof (cases n)
    case 0
    then show ?thesis by simp
  next
    case (Suc k)
    with light_passes_second [OF assms, of m su k "li + m" rs] show ?thesis
      by (simp del: light_passes.simps)
  qed
  then obtain es where
    es: "light_passes m m_lights q su n (0 + 1) (li + m) rs =
           Inr (es, if n = 0 then rs else additive_pass rs)"
    "draw_states es = replicate n (additive_pass rs)"
    by blast
  have "rs = (if (0::nat) = 1 then additive_pass rs else rs)" by simp
  from light_passes_step [OF s(1) es(1) this] s(2) es(2) show ?thesis
    by (simp add: draw_states_append del: light_passes.simps)
qed

lemma selected_for_in_range:
  "selected_for F q object l \<Longrightarrow>
   index l < (case light_type l of
                LightType_Directional \<Rightarrow> length (directionalLights q)
              | LightType_Point \<Rightarrow> length (pointLights q)
              | LightType_Spot \<Rightarrow> length (spotLights q))"
  by (cases "light_type l") (simp_all add: selected_for_def)

lemma ChooseLights_in_range:
  "lights_in_range q (ChooseLights F q object inc)"
  unfolding lights_in_range_def
  using ChooseLights_entry [of _ F q object inc] selected_for_in_range [of F q object]
  by blast

lemma passCount_ceiling:
  assumes "0 < m"
  shows "passCount m k = Inr (if k = 0 then 1 else (k + m - 1) div m)"
proof (cases "k = 0")
  case True
  then show ?thesis by (simp add: passCount_def)
next
  case False
  then have "k + m - 1 = (k - 1) + 1 * m" by simp
  then have "(k + m - 1) div m = (k - 1) div m + 1"
    using assms by (metis div_mult_self1 less_numeral_extra(3) add.commute)
  with False assms show ?thesis by (simp add: passCount_def)
qed


lemma DrawOpaqueModel_lit_result:
  fixes F :: "('o, 'a, 's::linorder) LightFunctions"
  assumes "0 < m"
    and "L = ChooseLights F q (instanceSphere F matrix sphere) True"
    and "n = (if length L = 0 then 1 else (length L + m - 1) div m) - 1"
  shows "\<exists>es. DrawOpaqueModel_lit m F q su sphere matrix rs =
           Inr (es, L, (if n = 0 then rs else additive_pass rs)
                          \<lparr>blending := False, depthFunc := depthFunc rs\<rparr>) \<and>
           draw_states es = rs # replicate n (additive_pass rs)"
proof -
  have pc: "passCount m (length L) = Inr (Suc n)"
  proof -
    have "0 < (length L + m - 1) div m" if "length L \<noteq> 0"
    proof -
      from that have "m \<le> length L + m - 1" by arith
      with assms(1) show ?thesis by (simp add: div_greater_zero_iff)
    qed
    then show ?thesis
      using passCount_ceiling [OF assms(1), of "length L"] by (auto simp: assms(3))
  qed
  have "lights_in_range q L"
    unfolding assms(2) by (rule ChooseLights_in_range)
  from light_passes_first [OF this, of m su n 0 rs] obtain es where
    es: "light_passes m L q su (Suc n) 0 0 rs = Inr (es, if n = 0 then rs else additive_pass rs)"
    "draw_states es = rs # replicate n (additive_pass rs)"
    by blast
  have "DrawOpaqueModel_lit m F q su sphere matrix rs =
      Inr (es, L, (if n = 0 then rs else additive_pass rs)\<lparr>blending := False, depthFunc := depthFunc rs\<rparr>)"
    using pc es(1)
    by (simp add: DrawOpaqueModel_lit_def assms(2) [symmetric] Let_def del: light_passes.simps)
  with es(2) show ?thesis by blast
qed

lemma more_passes_iff:
  fixes m k :: nat
  assumes "0 < m"
  shows "(if k = 0 then 1 else (k + m - 1) div m) - 1 = 0 \<longleftrightarrow> \<not> m < k"
proof -
  have "(k + m - 1) div m < 2 \<longleftrightarrow> k + m - 1 < 2 * m"
    using assms by (rule div_less_iff_less_mult)
  then have "(k + m - 1) div m \<le> 1 \<longleftrightarrow> k \<le> m" if "k \<noteq> 0"
    using that by arith
  then show ?thesis using assms by auto
qed

lemma street_lights: "ChooseLights line_lights street 5 True =
     [\<lparr>light_type = LightType_Directional, score = 0, index = 0\<rparr>,
      \<lparr>light_type = LightType_Point, score = 1, index = 2\<rparr>,
      \<lparr>light_type = LightType_Spot, score = 2, index = 0\<rparr>,
      \<lparr>light_type = LightType_Point, score = 4, index = 0\<rparr>]"
    by (simp add: ChooseLights_def push_suitable_def std_sort_def line_lights_def street_def
        lamp_def torch_def distance_def upt_rec)

lemma street_sphere: "instanceSphere line_lights 3 2 = 5"
  by (simp add: line_lights_def)

text \<open>
  Claim C3, as the code has it. Let \<open>k\<close> be the number of lights that \<^verbatim>\<open>ChooseLights\<close>
  selects for the object and \<open>m > 0\<close> the number of lights per pass. The submission
  without instancing succeeds and draws once per pass, \<open>\<lceil>k / m\<rceil>\<close> times, once when
  \<open>k = 0\<close>. The first pass runs in the render states found; every later pass runs with
  blending enabled, blend function one + one and depth comparison equal. Afterwards the
  depth function is the one found and blending is disabled, whatever it was before; the
  blend function is one + one when there was more than one pass (\<open>m < k\<close>) and the one
  found otherwise.
\<close>

theorem DrawOpaqueModel_lit_passes:
  fixes F :: "('o, 'a, 's::linorder) LightFunctions"
  assumes "0 < m"
  shows "\<exists>effects rs'.
     DrawOpaqueModel_lit m F q su sphere matrix rs =
       Inr (effects, ChooseLights F q (instanceSphere F matrix sphere) True, rs') \<and>
     (let k = length (ChooseLights F q (instanceSphere F matrix sphere) True);
          passes = draw_states effects
      in length passes = (if k = 0 then 1 else (k + m - 1) div m) \<and>
         passes ! 0 = rs \<and>
         (\<forall>i. 0 < i \<and> i < length passes \<longrightarrow>
            blending (passes ! i) \<and> srcBlend (passes ! i) = BlendFunc_One \<and>
            dstBlend (passes ! i) = BlendFunc_One \<and>
            depthFunc (passes ! i) = RendererComparison_Equal) \<and>
         depthFunc rs' = depthFunc rs \<and>
         \<not> blending rs' \<and>
         srcBlend rs' = (if m < k then BlendFunc_One else srcBlend rs) \<and>
         dstBlend rs' = (if m < k then BlendFunc_One else dstBlend rs))"
proof -
  define L where "L = ChooseLights F q (instanceSphere F matrix sphere) True"
  define n where "n = (if length L = 0 then 1 else (length L + m - 1) div m) - 1"
  from DrawOpaqueModel_lit_result [OF assms L_def n_def, of su rs] obtain es where
    r: "DrawOpaqueModel_lit m F q su sphere matrix rs =
          Inr (es, L, (if n = 0 then rs else additive_pass rs)
                         \<lparr>blending := False, depthFunc := depthFunc rs\<rparr>)"
    and d: "draw_states es = rs # replicate n (additive_pass rs)"
    by blast
  have n0: "n = 0 \<longleftrightarrow> \<not> m < length L"
    unfolding n_def by (rule more_passes_iff [OF assms])
  have len: "Suc n = (if length L = 0 then 1 else (length L + m - 1) div m)"
  proof (cases "length L = 0")
    case True
    then show ?thesis by (simp add: n_def)
  next
    case False
    then have "m \<le> length L + m - 1" by arith
    with assms have "0 < (length L + m - 1) div m" by (simp add: div_greater_zero_iff)
    with False show ?thesis by (simp add: n_def)
  qed
  show ?thesis
    using r d n0 len
    by (auto simp: L_def [symmetric] Let_def additive_pass_def nth_Cons split: nat.splits)
qed

theorem DrawOpaqueModel_lit_passes_witness:
  "(0::nat) < 3 \<and>
   length (ChooseLights line_lights street (instanceSphere line_lights 3 2) True) = 4 \<and>
   (\<exists>effects rs'.
      DrawOpaqueModel_lit 3 line_lights street lit_uniforms 2 3 states_opaque =
        Inr (effects, ChooseLights line_lights street (instanceSphere line_lights 3 2) True, rs') \<and>
      length (draw_states effects) = 2 \<and>
      draw_states effects ! 0 = states_opaque \<and>
      (\<forall>i. 0 < i \<and> i < length (draw_states effects) \<longrightarrow>
         blending (draw_states effects ! i) \<and>
         srcBlend (draw_states effects ! i) = BlendFunc_One \<and>
         dstBlend (draw_states effects ! i) = BlendFunc_One \<and>
         depthFunc (draw_states effects ! i) = RendererComparison_Equal) \<and>
      depthFunc rs' = depthFunc states_opaque \<and> \<not> blending rs' \<and>
      srcBlend rs' = BlendFunc_One \<and> dstBlend rs' = BlendFunc_One)"
proof -
  have m: "(0::nat) < 3" by simp
  have k: "length (ChooseLights line_lights street (instanceSphere line_lights 3 2) True) = 4"
    by (simp add: street_sphere street_lights)
  show ?thesis
    using DrawOpaqueModel_lit_passes [OF m, of line_lights street lit_uniforms 2 3 states_opaque] k
    by (simp add: Let_def)
qed

text \<open>
  Claim C3 as stated says that the blend state after the last pass is the one from before
  the first pass. For an object submitted with blending enabled and four selected lights,
  three per pass, the render states afterwards have blending disabled and the blend
  function one + one: they are not the states found.
\<close>

theorem blend_state_not_restored:
  "states_after (DrawOpaqueModel_lit 3 line_lights street lit_uniforms 2 3 states_blending) =
     Some \<lparr>blending = False, srcBlend = BlendFunc_One, dstBlend = BlendFunc_One,
           depthFunc = RendererComparison_Other 0\<rparr> \<and>
   states_after (DrawOpaqueModel_lit 3 line_lights street lit_uniforms 2 3 states_blending) \<noteq>
     Some states_blending"
proof -
  have m: "(0::nat) < 3" by simp
  have L: "ChooseLights line_lights street 5 True =
      ChooseLights line_lights street (instanceSphere line_lights 3 2) True"
    by (simp add: street_sphere)
  have n: "(1::nat) = (if length (ChooseLights line_lights street 5 True) = 0 then 1
      else (length (ChooseLights line_lights street 5 True) + 3 - 1) div 3) - 1"
    by (simp add: street_lights)
  from DrawOpaqueModel_lit_result [OF m L n, of lit_uniforms states_blending]
  show ?thesis
    by (auto simp: states_after_def states_blending_def additive_pass_def)
qed


subsection \<open>The lights sent with instancing\<close>

lemma chunks_2_8: "draw_instance_chunks 2 8 rs = Some [DrawCallInstanced 2 rs]"
  by (simp add: draw_instance_chunks.simps)

lemma lit_uniforms_eval:
  "hasLightUniforms lit_uniforms" "lightOffset lit_uniforms = 8"
  "loc_type (locations (lightUniforms lit_uniforms)) = 4"
  "loc_color (locations (lightUniforms lit_uniforms)) = - 1"
  "loc_factors (locations (lightUniforms lit_uniforms)) = - 1"
  "loc_parameters1 (locations (lightUniforms lit_uniforms)) = - 1"
  "loc_parameters2 (locations (lightUniforms lit_uniforms)) = - 1"
  "loc_parameters3 (locations (lightUniforms lit_uniforms)) = - 1"
  "loc_shadowMapping (locations (lightUniforms lit_uniforms)) = - 1"
  "loc_lightViewProjMatrix (locations (lightUniforms lit_uniforms)) = - 1"
  by (simp_all add: lit_uniforms_def ResolveShaderUniforms_def shader_lights_at_4_def
      shader_of_def Let_def word_sless_alt)

lemma sends_fresh:
  "send_pass_lights 3 ([] :: nat LightIndex list) (q :: nat RenderQueue) lit_uniforms 0 =
     Inr [SendInteger 4 (- 1), SendInteger 12 (- 1), SendInteger 20 (- 1)]"
  by (simp add: send_pass_lights_def upt_rec SendLightUniforms_def lit_uniforms_eval Let_def)

lemma lights_sent_append: "lights_sent (xs @ ys) = lights_sent xs @ lights_sent ys"
  by (induction xs rule: lights_sent.induct) simp_all

lemma sends_stale:
  "\<exists>es. send_pass_lights 3 (ChooseLights line_lights street 5 True) street lit_uniforms 0 = Inr es \<and>
     lights_sent es = [LightType_Directional, LightType_Point, LightType_Spot]"
  unfolding street_lights
  by (simp add: send_pass_lights_def upt_rec SendLightUniforms_def
      lit_uniforms_eval Let_def to_unsigned_int_def street_def sun_def lamp_def torch_def
      send_shadowMapping_def bind_shadowMap2D_def bind_shadowMapCube_def)

lemma instanced_fresh:
  "DrawOpaqueModels_instanced 3 ([] :: nat LightIndex list) daylight lit_uniforms 2 8 states_opaque =
     Some (Inr ([SendInteger 4 (- 1), SendInteger 12 (- 1), SendInteger 20 (- 1),
                 DrawCallInstanced 2 states_opaque], states_opaque))"
  by (simp add: DrawOpaqueModels_instanced_def daylight_def passCount_def lit_uniforms_eval
      sends_fresh chunks_2_8 states_opaque_def)


text \<open>
  Claim C5, at two inputs for which it fails, both with three lights per pass, a shader
  with light uniforms and one directional light in the queue. In a technique that has
  not chosen lights yet (\<^verbatim>\<open>m_lights\<close> empty), the instancing path sends no light at all: it
  disables the three slots. After a submission without instancing has chosen a
  directional, two point and a spot light for some object, the instancing path sends the
  first three of those: a directional, a point and a spot light.
\<close>

theorem instanced_sends_stale_lights:
  "DrawOpaqueModels_instanced 3 ([] :: nat LightIndex list) daylight lit_uniforms 2 8 states_opaque =
     Some (Inr ([SendInteger 4 (- 1), SendInteger 12 (- 1), SendInteger 20 (- 1),
                 DrawCallInstanced 2 states_opaque], states_opaque)) \<and>
   length (directionalLights daylight) = 1 \<and>
   lights_sent_by (DrawOpaqueModels_instanced 3 (ChooseLights line_lights street 5 True) street
     lit_uniforms 2 8 states_opaque) = [LightType_Directional, LightType_Point, LightType_Spot] \<and>
   length (directionalLights street) = 1"
proof -
  obtain es where es:
    "send_pass_lights 3 (ChooseLights line_lights street 5 True) street lit_uniforms 0 = Inr es"
    "lights_sent es = [LightType_Directional, LightType_Point, LightType_Spot]"
    using sends_stale by blast
  have "lights_sent_by (DrawOpaqueModels_instanced 3 (ChooseLights line_lights street 5 True) street
     lit_uniforms 2 8 states_opaque) = [LightType_Directional, LightType_Point, LightType_Spot]"
    using es
    by (simp add: DrawOpaqueModels_instanced_def lights_sent_by_def passCount_def
        lit_uniforms_eval(1) chunks_2_8 lights_sent_append street_def)
  then show ?thesis
    by (simp add: instanced_fresh) (simp add: daylight_def street_def)
qed

subsection \<open>Initialisation\<close>






subsection \<open>Basic sprites: batches\<close>

lemma memcpy_quads_length: "length (memcpy_quads chain off n) = 4 * n"
  by (simp add: memcpy_quads_def)

lemma memcpy_quads_split:
  "memcpy_quads chain off (n + m) = memcpy_quads chain off n @ memcpy_quads chain (off + n) m"
proof -
  have "[off * 4..<off * 4 + 4 * (n + m)] =
        [off * 4..<off * 4 + 4 * n] @ [(off + n) * 4..<(off + n) * 4 + 4 * m]"
    using upt_add_eq_append [of "off * 4" "off * 4 + 4 * n" "4 * m"]
    by (simp add: algebra_simps)
  then show ?thesis
    by (simp add: memcpy_quads_def)
qed

lemma rest_start:
  "rest_data cs 0 0 = all_data cs" "rest_quads cs 0 0 = total_quads cs"
  by (cases cs; simp add: rest_data_def rest_quads_def all_data_def total_quads_def chain_data_def)+

lemma rest_next:
  "rest_data cs (Suc c) 0 = all_data (drop (Suc c) cs)"
  "rest_quads cs (Suc c) 0 = total_quads (drop (Suc c) cs)"
proof -
  show "rest_data cs (Suc c) 0 = all_data (drop (Suc c) cs)"
  proof (cases "Suc c < length cs")
    case True
    then have "drop (Suc c) cs = cs ! Suc c # drop (Suc (Suc c)) cs"
      by (simp add: Cons_nth_drop_Suc)
    with True show ?thesis
      by (simp add: rest_data_def all_data_def chain_data_def)
  next
    case False
    then show ?thesis by (simp add: rest_data_def all_data_def)
  qed
  show "rest_quads cs (Suc c) 0 = total_quads (drop (Suc c) cs)"
  proof (cases "Suc c < length cs")
    case True
    then have "drop (Suc c) cs = cs ! Suc c # drop (Suc (Suc c)) cs"
      by (simp add: Cons_nth_drop_Suc)
    with True show ?thesis
      by (simp add: rest_quads_def total_quads_def)
  next
    case False
    then show ?thesis by (simp add: rest_quads_def total_quads_def)
  qed
qed

text \<open>Taking \<open>count\<close> quads at the cursor.\<close>

lemma rest_take_part:
  assumes "c < length cs" and "off + count < spriteCount (cs ! c)"
  shows "rest_data cs c off = memcpy_quads (cs ! c) off count @ rest_data cs c (off + count)"
    and "rest_quads cs c off = count + rest_quads cs c (off + count)"
proof -
  have "spriteCount (cs ! c) - off = count + (spriteCount (cs ! c) - (off + count))"
    using assms(2) by simp
  then have "memcpy_quads (cs ! c) off (spriteCount (cs ! c) - off) =
      memcpy_quads (cs ! c) off count @
      memcpy_quads (cs ! c) (off + count) (spriteCount (cs ! c) - (off + count))"
    by (simp only: memcpy_quads_split)
  then show "rest_data cs c off =
      memcpy_quads (cs ! c) off count @ rest_data cs c (off + count)"
    using assms(1) by (simp add: rest_data_def)
  show "rest_quads cs c off = count + rest_quads cs c (off + count)"
    using assms by (simp add: rest_quads_def)
qed

lemma rest_take_all:
  assumes "c < length cs" and "off + count = spriteCount (cs ! c)"
  shows "rest_data cs c off = memcpy_quads (cs ! c) off count @ rest_data cs (Suc c) 0"
    and "rest_quads cs c off = count + rest_quads cs (Suc c) 0"
proof -
  have "spriteCount (cs ! c) - off = count"
    using assms(2) by simp
  then show "rest_data cs c off =
      memcpy_quads (cs ! c) off count @ rest_data cs (Suc c) 0"
    using assms(1) by (simp add: rest_next) (simp add: rest_data_def)
  show "rest_quads cs c off = count + rest_quads cs (Suc c) 0"
    using assms by (simp add: rest_next) (simp add: rest_quads_def)
qed


lemma fill_step_part:
  assumes "c < length cs" and "filled < C"
    and "count = min (C - filled) (spriteCount (cs ! c) - off)"
    and "off + count < spriteCount (cs ! c)"
  shows "fill_sprite_chains C cs buffer filled c off =
         Some (Inr (buffer @ memcpy_quads (cs ! c) off count, filled + count, c, off + count))"
proof -
  from assms(3,4) have "count = C - filled" by arith
  with assms(2) have stop: "\<not> filled + count < C" by simp
  have ne: "off + count \<noteq> spriteCount (cs ! c)"
    using assms(4) by simp
  have m: "min (size_sub C filled) (size_sub (spriteCount (cs ! c)) off) = count"
    using assms(2,3,4) by (simp add: size_sub_def)
  show ?thesis
    by (subst fill_sprite_chains.simps) (simp add: Let_def m ne stop assms(1))
qed

lemma fill_step_all_stop:
  assumes "c < length cs" and "filled < C"
    and "count = min (C - filled) (spriteCount (cs ! c) - off)"
    and "off + count = spriteCount (cs ! c)"
    and "\<not> (filled + count < C \<and> Suc c < length cs)"
  shows "fill_sprite_chains C cs buffer filled c off =
         Some (Inr (buffer @ memcpy_quads (cs ! c) off count, filled + count, Suc c, 0))"
proof -
  have "size_sub C filled = C - filled"
    "size_sub (spriteCount (cs ! c)) off = spriteCount (cs ! c) - off"
    using assms(2,4) by (simp_all add: size_sub_def)
  then show ?thesis
    using assms(1,3,4,5)
    by (subst fill_sprite_chains.simps) (auto simp: Let_def)
qed

lemma fill_step_all_go:
  assumes "c < length cs" and "filled < C"
    and "count = min (C - filled) (spriteCount (cs ! c) - off)"
    and "off + count = spriteCount (cs ! c)"
    and "filled + count < C" and "Suc c < length cs"
  shows "fill_sprite_chains C cs buffer filled c off =
         fill_sprite_chains C cs (buffer @ memcpy_quads (cs ! c) off count) (filled + count) (Suc c) 0"
proof -
  have "size_sub C filled = C - filled"
    "size_sub (spriteCount (cs ! c)) off = spriteCount (cs ! c) - off"
    using assms(2,4) by (simp_all add: size_sub_def)
  then show ?thesis
    using assms(1,3,4,5,6)
    by (subst fill_sprite_chains.simps) (auto simp: Let_def)
qed

lemma rest_quads_zero_last:
  assumes "c < length cs"
    and "off < spriteCount (cs ! c) \<or> (off = 0 \<and> spriteCount (cs ! c) = 0)"
    and "rest_quads cs c off = 0"
  shows "spriteCount (last cs) = 0"
proof -
  from assms have here: "spriteCount (cs ! c) = 0"
    and later: "total_quads (drop (Suc c) cs) = 0"
    by (auto simp: rest_quads_def)
  show ?thesis
  proof (cases "Suc c < length cs")
    case True
    then have "last cs = last (drop (Suc c) cs)" by simp
    moreover from True have "drop (Suc c) cs \<noteq> []" by simp
    ultimately have "last cs \<in> set (drop (Suc c) cs)"
      by (metis last_in_set)
    with later show ?thesis
      by (simp add: total_quads_def)
  next
    case False
    with assms(1) have "c = length cs - 1" "cs \<noteq> []" by auto
    then have "last cs = cs ! c"
      by (simp add: last_conv_nth)
    with here show ?thesis by simp
  qed
qed

lemma fill_sprite_chains_result:
  assumes "c < length cs"
    and "off < spriteCount (cs ! c) \<or> (off = 0 \<and> spriteCount (cs ! c) = 0)"
    and "filled < C"
  shows "\<exists>w c' off'.
     fill_sprite_chains C cs buffer filled c off =
       Some (Inr (buffer @ w, filled + min (C - filled) (rest_quads cs c off), c', off')) \<and>
     length w = 4 * min (C - filled) (rest_quads cs c off) \<and>
     rest_data cs c off = w @ rest_data cs c' off' \<and>
     rest_quads cs c off = min (C - filled) (rest_quads cs c off) + rest_quads cs c' off' \<and>
     cursor_ok cs c' off' \<and>
     (c' < length cs \<longrightarrow> filled + min (C - filled) (rest_quads cs c off) = C) \<and>
     (c' = length cs \<and> filled + min (C - filled) (rest_quads cs c off) = C \<longrightarrow>
        0 < spriteCount (last cs))"
  using assms
proof (induction "rest_quads cs c off + (length cs - c)"
    arbitrary: buffer filled c off rule: less_induct)
  case less
  define n where "n = spriteCount (cs ! c)"
  define count where "count = min (C - filled) (n - off)"
  have off_le: "off \<le> n"
    using less.prems(2) by (auto simp: n_def)
  have count_le: "off + count \<le> n"
    using off_le by (simp add: count_def)
  have cnt: "count = min (C - filled) (spriteCount (cs ! c) - off)"
    by (simp add: count_def n_def)
  show ?case
  proof (cases "off + count < n")
    case True
    then have eqC: "count = C - filled"
      by (simp add: count_def)
    from True have part: "off + count < spriteCount (cs ! c)" by (simp add: n_def)
    note r = rest_take_part [OF less.prems(1) part]
    have k: "min (C - filled) (rest_quads cs c off) = count"
      using r(2) eqC by simp
    have full: "filled + count = C"
      using eqC less.prems(3) by simp
    have "cursor_ok cs c (off + count)"
      using less.prems(1) part by (simp add: cursor_ok_def)
    with fill_step_part [OF less.prems(1) less.prems(3) cnt part, of buffer] r k full
      less.prems(1)
    show ?thesis
      by (auto simp: memcpy_quads_length)
  next
    case False
    with count_le have full: "off + count = spriteCount (cs ! c)" by (simp add: n_def)
    note r = rest_take_all [OF less.prems(1) full]
    show ?thesis
    proof (cases "filled + count < C \<and> Suc c < length cs")
      case stop: False
      have k: "min (C - filled) (rest_quads cs c off) = count"
      proof (cases "Suc c < length cs")
        case True
        with stop have "count = C - filled"
          using cnt by arith
        with r(2) show ?thesis by simp
      next
        case False
        then have "rest_quads cs (Suc c) 0 = 0" by (simp add: rest_quads_def)
        with r(2) cnt show ?thesis by simp
      qed
      have ok: "cursor_ok cs (Suc c) 0"
        using less.prems(1) by (auto simp: cursor_ok_def)
      have batch_full: "Suc c < length cs \<longrightarrow> filled + count = C"
        using stop cnt less.prems(3) by arith
      have last_pos: "Suc c = length cs \<and> filled + count = C \<longrightarrow> 0 < spriteCount (last cs)"
      proof
        assume a: "Suc c = length cs \<and> filled + count = C"
        then have "0 < count" using less.prems(3) by simp
        with full have "0 < spriteCount (cs ! c)" by simp
        moreover from a have "c = length cs - 1" "cs \<noteq> []" by auto
        then have "last cs = cs ! c"
          by (simp add: last_conv_nth)
        ultimately show "0 < spriteCount (last cs)" by simp
      qed
      from fill_step_all_stop [OF less.prems(1) less.prems(3) cnt full stop, of buffer]
        r k ok batch_full last_pos
      show ?thesis
        by (intro exI [of _ "memcpy_quads (cs ! c) off count"] exI [of _ "Suc c"]
              exI [of _ "0::nat"])
           (simp add: memcpy_quads_length)
    next
      case True
      then have go: "filled + count < C" "Suc c < length cs" by simp_all
      have smaller: "rest_quads cs (Suc c) 0 + (length cs - Suc c) <
          rest_quads cs c off + (length cs - c)"
        using r(2) less.prems(1) by simp
      have next_ok: "0 < spriteCount (cs ! Suc c) \<or> ((0::nat) = 0 \<and> spriteCount (cs ! Suc c) = 0)"
        by auto
      from less.hyps [OF smaller go(2) next_ok go(1),
          of "buffer @ memcpy_quads (cs ! c) off count"]
      obtain w c' off' where ih:
        "fill_sprite_chains C cs (buffer @ memcpy_quads (cs ! c) off count) (filled + count) (Suc c) 0 =
           Some (Inr ((buffer @ memcpy_quads (cs ! c) off count) @ w,
                      filled + count + min (C - (filled + count)) (rest_quads cs (Suc c) 0), c', off'))"
        "length w = 4 * min (C - (filled + count)) (rest_quads cs (Suc c) 0)"
        "rest_data cs (Suc c) 0 = w @ rest_data cs c' off'"
        "rest_quads cs (Suc c) 0 =
           min (C - (filled + count)) (rest_quads cs (Suc c) 0) + rest_quads cs c' off'"
        "cursor_ok cs c' off'"
        "c' < length cs \<longrightarrow>
           filled + count + min (C - (filled + count)) (rest_quads cs (Suc c) 0) = C"
        "c' = length cs \<and>
           filled + count + min (C - (filled + count)) (rest_quads cs (Suc c) 0) = C \<longrightarrow>
           0 < spriteCount (last cs)"
        by blast
      have k: "min (C - filled) (rest_quads cs c off) =
          count + min (C - (filled + count)) (rest_quads cs (Suc c) 0)"
        using r(2) go(1) by simp
      show ?thesis
        unfolding fill_step_all_go [OF less.prems(1) less.prems(3) cnt full go] k
        using ih r
        by (intro exI [of _ "memcpy_quads (cs ! c) off count @ w"] exI [of _ c'] exI [of _ off'])
           (simp add: memcpy_quads_length add.assoc)
    qed
  qed
qed

lemma buffer_fills_append: "buffer_fills (xs @ ys) = buffer_fills xs @ buffer_fills ys"
  by (induction xs rule: buffer_fills.induct) simp_all

lemma draw_calls_append: "draw_calls (xs @ ys) = draw_calls xs @ draw_calls ys"
  by (induction xs rule: draw_calls.induct) simp_all

lemma draw_step_go:
  assumes "fill_sprite_chains C cs [] 0 c off = Some (Inr (w, k, c', off'))"
    and "c' < length cs"
  shows "draw_sprite_chains C cs effects c off =
         draw_sprite_chains C cs
           (effects @ [FillBuffer w, DrawIndexedPrimitives 0 (to_unsigned_int (k * 6))]) c' off'"
  using assms by (subst draw_sprite_chains.simps) (simp add: Let_def)

lemma draw_step_stop:
  assumes "fill_sprite_chains C cs [] 0 c off = Some (Inr (w, k, c', off'))"
    and "\<not> c' < length cs"
  shows "draw_sprite_chains C cs effects c off =
         Some (Inr (effects @ [FillBuffer w, DrawIndexedPrimitives 0 (to_unsigned_int (k * 6))]))"
  using assms by (subst draw_sprite_chains.simps) (simp add: Let_def)

lemma ceiling_div_step:
  fixes C q :: nat
  assumes "0 < C" and "C \<le> q"
  shows "(q + C - 1) div C = Suc ((q - C + C - 1) div C)"
proof -
  define m where "m = q - C + C - 1"
  have "q + C - 1 = m + C"
    using assms by (simp add: m_def)
  moreover have "(m + C) div C = Suc (m div C)"
  proof -
    from assms(1) have "C \<noteq> 0" by simp
    from div_add_self2 [OF this, of m] show ?thesis by simp
  qed
  ultimately show ?thesis
    by (simp add: m_def)
qed

lemma ceiling_div_one:
  fixes C q :: nat
  assumes "0 < q" and "q \<le> C"
  shows "(q + C - 1) div C = 1"
  using assms by (intro div_nat_eqI) simp_all

lemma draw_sprite_chains_result:
  assumes "0 < C" and "C * 6 < 2 ^ 32"
    and "c < length cs"
    and "off < spriteCount (cs ! c) \<or> (off = 0 \<and> spriteCount (cs ! c) = 0)"
  shows "\<exists>es.
     draw_sprite_chains C cs effects c off = Some (Inr (effects @ es)) \<and>
     concat (buffer_fills es) = rest_data cs c off \<and>
     length (draw_calls es) =
       (rest_quads cs c off + C - 1) div C +
       (if rest_quads cs c off mod C = 0 \<and> spriteCount (last cs) = 0 then 1 else 0) \<and>
     sum_list (map quads_drawn (draw_calls es)) = rest_quads cs c off"
  using assms(3,4)
proof (induction "rest_quads cs c off" arbitrary: effects c off rule: less_induct)
  case less
  define q where "q = rest_quads cs c off"
  define k where "k = min C q"
  have k_le: "k \<le> C"
    by (simp add: k_def)
  from fill_sprite_chains_result [OF less.prems assms(1), of "[]"]
  obtain w c' off' where f:
    "fill_sprite_chains C cs [] 0 c off = Some (Inr (w, k, c', off'))"
    "rest_data cs c off = w @ rest_data cs c' off'"
    "q = k + rest_quads cs c' off'"
    "cursor_ok cs c' off'"
    "c' < length cs \<longrightarrow> k = C"
    "c' = length cs \<and> k = C \<longrightarrow> 0 < spriteCount (last cs)"
    by (auto simp: q_def k_def)
  have "k * 6 \<le> C * 6"
    using k_le by simp
  then have "k * 6 < 2 ^ 32"
    using assms(2) by (rule le_less_trans)
  then have idx: "to_unsigned_int (k * 6) = k * 6"
    by (simp add: to_unsigned_int_def)
  define batch :: "'a sprite_effect list"
    where "batch = [FillBuffer w, DrawIndexedPrimitives 0 (to_unsigned_int (k * 6))]"
  have batch: "buffer_fills batch = [w]" "draw_calls batch = [(0, k * 6)]"
    by (simp_all add: batch_def idx)
  show ?case
  proof (cases "c' < length cs")
    case False
    with f(4) have at_end: "c' = length cs" and "rest_quads cs c' off' = 0"
      "rest_data cs c' off' = []"
      by (auto simp: cursor_ok_def rest_quads_def rest_data_def)
    with f(2,3) have qk: "q = k" and w: "rest_data cs c off = w" by simp_all
    have n: "(q + C - 1) div C +
        (if q mod C = 0 \<and> spriteCount (last cs) = 0 then 1 else 0) = (1::nat)"
    proof (cases "q = 0")
      case True
      with rest_quads_zero_last [OF less.prems] have "spriteCount (last cs) = 0"
        by (simp add: q_def)
      with True assms(1) show ?thesis by simp
    next
      case False
      then have one: "(q + C - 1) div C = 1"
        using k_le qk by (intro ceiling_div_one) simp_all
      show ?thesis
      proof (cases "q = C")
        case True
        with f(6) at_end qk have "0 < spriteCount (last cs)" by simp
        with one show ?thesis by simp
      next
        case less_C: False
        with qk k_le False have "0 < q" "q < C" by simp_all
        then have "q mod C \<noteq> 0" by simp
        with one show ?thesis by simp
      qed
    qed
    have 1: "draw_sprite_chains C cs effects c off = Some (Inr (effects @ batch))"
      using draw_step_stop [OF f(1) False, of effects] by (simp add: batch_def)
    have 2: "concat (buffer_fills batch) = rest_data cs c off"
      using batch(1) w by simp
    have 3: "length (draw_calls batch) = (q + C - 1) div C +
        (if q mod C = 0 \<and> spriteCount (last cs) = 0 then 1 else 0)"
      using batch(2) n by simp
    have 4: "sum_list (map quads_drawn (draw_calls batch)) = q"
      using batch(2) qk by (simp add: quads_drawn_def)
    from 1 2 3 4 show ?thesis
      unfolding q_def by blast
  next
    case True
    with f(4) have off': "off' < spriteCount (cs ! c') \<or> (off' = 0 \<and> spriteCount (cs ! c') = 0)"
      by (simp add: cursor_ok_def)
    from True f(5) have kC: "k = C" by simp
    have smaller: "rest_quads cs c' off' < rest_quads cs c off"
      using f(3) kC assms(1) by (simp add: q_def)
    from less.hyps [OF smaller True off', of "effects @ batch"] obtain es where ih:
      "draw_sprite_chains C cs (effects @ batch) c' off' = Some (Inr ((effects @ batch) @ es))"
      "concat (buffer_fills es) = rest_data cs c' off'"
      "length (draw_calls es) = (rest_quads cs c' off' + C - 1) div C +
         (if rest_quads cs c' off' mod C = 0 \<and> spriteCount (last cs) = 0 then 1 else 0)"
      "sum_list (map quads_drawn (draw_calls es)) = rest_quads cs c' off'"
      by blast
    have r: "rest_quads cs c' off' = q - C" "C \<le> q"
      using f(3) kC by simp_all
    have m: "(q - C) mod C = q mod C"
      using r(2) by (simp add: le_mod_geq)
    have n: "(q + C - 1) div C +
        (if q mod C = 0 \<and> spriteCount (last cs) = 0 then 1 else 0) =
        Suc (length (draw_calls es))"
      using ceiling_div_step [OF assms(1) r(2)] ih(3) r(1) m by simp
    have 1: "draw_sprite_chains C cs effects c off = Some (Inr (effects @ batch @ es))"
      using draw_step_go [OF f(1) True, of effects] ih(1) by (simp add: batch_def)
    have 2: "concat (buffer_fills (batch @ es)) = rest_data cs c off"
      using batch(1) ih(2) f(2) by (simp add: buffer_fills_append)
    have 3: "length (draw_calls (batch @ es)) = (q + C - 1) div C +
        (if q mod C = 0 \<and> spriteCount (last cs) = 0 then 1 else 0)"
      using batch(2) n by (simp add: draw_calls_append)
    have 4: "sum_list (map quads_drawn (draw_calls (batch @ es))) = q"
      using batch(2) ih(4) f(3) by (simp add: draw_calls_append quads_drawn_def)
    from 1 2 3 4 show ?thesis
      unfolding q_def by blast
  qed
qed

lemma maxSpriteCount_bounds:
  "4 \<le> vertexCount \<Longrightarrow> 0 < maxSpriteCount vertexCount"
  "maxSpriteCount vertexCount * 6 < 2 ^ 32"
proof -
  assume "4 \<le> vertexCount"
  then have "0 < vertexCount div 4" by (simp add: div_greater_zero_iff)
  then show "0 < maxSpriteCount vertexCount"
    by (simp add: maxSpriteCount_def s_maxQuads_def)
next
  have "maxSpriteCount vertexCount \<le> 10922"
    by (simp add: maxSpriteCount_def s_maxQuads_def)
  then show "maxSpriteCount vertexCount * 6 < 2 ^ 32" by simp
qed

text \<open>
  Claim C2, as the code has it. Let the sprite buffer hold at least four vertices, so
  that the capacity \<open>C = min (65535 div 6) (vertexCount div 4)\<close> is at least 1. Then for
  every list of chains, empty chains included, the packer returns; with \<open>N\<close> the number
  of sprites of all chains, the sprites drawn add up to \<open>N\<close>, and the vertices written to
  the buffer, fill after fill, are the vertices of the chains in their order. It draws
  \<open>\<lceil>N / C\<rceil>\<close> times, and once more, with no index, exactly when the list is not empty,
  its last chain is empty and \<open>C\<close> divides \<open>N\<close>; for an empty list it does not draw.
\<close>

theorem DrawBasicSprites_chains_batches:
  assumes "4 \<le> vertexCount"
  shows "\<exists>effects.
     DrawBasicSprites_chains vertexCount cs = Some (Inr effects) \<and>
     length (draw_calls effects) =
       (total_quads cs + maxSpriteCount vertexCount - 1) div maxSpriteCount vertexCount +
       (if cs \<noteq> [] \<and> total_quads cs mod maxSpriteCount vertexCount = 0 \<and>
           spriteCount (last cs) = 0
        then 1 else 0) \<and>
     sum_list (map quads_drawn (draw_calls effects)) = total_quads cs \<and>
     concat (buffer_fills effects) = all_data cs"
proof (cases cs)
  case Nil
  then show ?thesis
    using maxSpriteCount_bounds(1) [OF assms]
    by (simp add: DrawBasicSprites_chains_def total_quads_def all_data_def)
next
  case (Cons chain rest)
  then have c: "0 < length cs"
    "0 < spriteCount (cs ! 0) \<or> ((0::nat) = 0 \<and> spriteCount (cs ! 0) = 0)"
    by auto
  from draw_sprite_chains_result
    [OF maxSpriteCount_bounds(1) [OF assms] maxSpriteCount_bounds(2) c, of "[]"]
  show ?thesis
    using c(1) by (auto simp: DrawBasicSprites_chains_def rest_start)
qed

lemma packs_5_by_2:
  "DrawBasicSprites_chains 8 [quads_of 0 3, quads_of 100 2] =
     Some (Inr [FillBuffer [0, 1, 2, 3, 4, 5, 6, 7], DrawIndexedPrimitives 0 12,
                FillBuffer [8, 9, 10, 11, 100, 101, 102, 103], DrawIndexedPrimitives 0 12,
                FillBuffer [104, 105, 106, 107], DrawIndexedPrimitives 0 6])"
  by (simp add: DrawBasicSprites_chains_def maxSpriteCount_def s_maxQuads_def
      draw_sprite_chains.simps fill_sprite_chains.simps size_sub_def memcpy_quads_def
      quads_of_def to_unsigned_int_def upt_rec Let_def)


lemma packs_4_and_0_by_2:
  "DrawBasicSprites_chains 8 [quads_of 0 4, quads_of 100 0] =
     Some (Inr [FillBuffer [0, 1, 2, 3, 4, 5, 6, 7], DrawIndexedPrimitives 0 12,
                FillBuffer [8, 9, 10, 11, 12, 13, 14, 15], DrawIndexedPrimitives 0 12,
                FillBuffer [], DrawIndexedPrimitives 0 0])"
  by (simp add: DrawBasicSprites_chains_def maxSpriteCount_def s_maxQuads_def
      draw_sprite_chains.simps fill_sprite_chains.simps size_sub_def memcpy_quads_def
      quads_of_def to_unsigned_int_def upt_rec Let_def)

theorem DrawBasicSprites_chains_batches_witness:
  "(4::nat) \<le> 8 \<and>
   maxSpriteCount 8 = 2 \<and>
   total_quads [quads_of 0 3, quads_of 100 2] = 5 \<and>
   DrawBasicSprites_chains 8 [quads_of 0 3, quads_of 100 2] =
     Some (Inr [FillBuffer [0, 1, 2, 3, 4, 5, 6, 7], DrawIndexedPrimitives 0 12,
                FillBuffer [8, 9, 10, 11, 100, 101, 102, 103], DrawIndexedPrimitives 0 12,
                FillBuffer [104, 105, 106, 107], DrawIndexedPrimitives 0 6]) \<and>
   (\<exists>effects.
      DrawBasicSprites_chains 8 [quads_of 0 3, quads_of 100 2] = Some (Inr effects) \<and>
      length (draw_calls effects) = 3 \<and>
      sum_list (map quads_drawn (draw_calls effects)) = 5 \<and>
      concat (buffer_fills effects) = all_data [quads_of 0 3, quads_of 100 2]) \<and>
   total_quads [quads_of 0 4, quads_of 100 0] = 4 \<and>
   DrawBasicSprites_chains 8 [quads_of 0 4, quads_of 100 0] =
     Some (Inr [FillBuffer [0, 1, 2, 3, 4, 5, 6, 7], DrawIndexedPrimitives 0 12,
                FillBuffer [8, 9, 10, 11, 12, 13, 14, 15], DrawIndexedPrimitives 0 12,
                FillBuffer [], DrawIndexedPrimitives 0 0]) \<and>
   (\<exists>effects.
      DrawBasicSprites_chains 8 [quads_of 0 4, quads_of 100 0] = Some (Inr effects) \<and>
      length (draw_calls effects) = 3 \<and>
      sum_list (map quads_drawn (draw_calls effects)) = 4 \<and>
      concat (buffer_fills effects) = all_data [quads_of 0 4, quads_of 100 0])"
proof -
  have v: "(4::nat) \<le> 8" by simp
  have m: "maxSpriteCount 8 = 2"
    by (simp add: maxSpriteCount_def s_maxQuads_def)
  have t1: "total_quads [quads_of 0 3, quads_of 100 2] = 5"
    by (simp add: total_quads_def quads_of_def)
  have t2: "total_quads [quads_of 0 4, quads_of 100 0] = 4"
    by (simp add: total_quads_def quads_of_def)
  have n1: "(total_quads [quads_of 0 3, quads_of 100 2] + maxSpriteCount 8 - 1) div maxSpriteCount 8 +
      (if [quads_of 0 3, quads_of 100 2] \<noteq> [] \<and>
          total_quads [quads_of 0 3, quads_of 100 2] mod maxSpriteCount 8 = 0 \<and>
          spriteCount (last [quads_of 0 3, quads_of 100 2]) = 0
       then 1 else 0) = (3::nat)"
    unfolding m t1 by simp
  have n2: "(total_quads [quads_of 0 4, quads_of 100 0] + maxSpriteCount 8 - 1) div maxSpriteCount 8 +
      (if [quads_of 0 4, quads_of 100 0] \<noteq> [] \<and>
          total_quads [quads_of 0 4, quads_of 100 0] mod maxSpriteCount 8 = 0 \<and>
          spriteCount (last [quads_of 0 4, quads_of 100 0]) = 0
       then 1 else 0) = (3::nat)"
    unfolding m t2 by (simp add: quads_of_def)
  have x1: "\<exists>effects.
      DrawBasicSprites_chains 8 [quads_of 0 3, quads_of 100 2] = Some (Inr effects) \<and>
      length (draw_calls effects) = 3 \<and>
      sum_list (map quads_drawn (draw_calls effects)) = 5 \<and>
      concat (buffer_fills effects) = all_data [quads_of 0 3, quads_of 100 2]"
    using DrawBasicSprites_chains_batches [OF v, of "[quads_of 0 3, quads_of 100 2]"]
    unfolding n1
    unfolding t1 .
  have x2: "\<exists>effects.
      DrawBasicSprites_chains 8 [quads_of 0 4, quads_of 100 0] = Some (Inr effects) \<and>
      length (draw_calls effects) = 3 \<and>
      sum_list (map quads_drawn (draw_calls effects)) = 4 \<and>
      concat (buffer_fills effects) = all_data [quads_of 0 4, quads_of 100 0]"
    using DrawBasicSprites_chains_batches [OF v, of "[quads_of 0 4, quads_of 100 0]"]
    unfolding n2
    unfolding t2 .
  from v m t1 packs_5_by_2 x1 t2 packs_4_and_0_by_2 x2 show ?thesis
    by (intro conjI)
qed

text \<open>
  Claim C2 as stated, \<open>\<lceil>N / C\<rceil>\<close> draw calls for every sequence of chains with \<open>N > 0\<close>,
  fails when the last chain is empty and \<open>C\<close> divides \<open>N\<close>: with capacity 2, a chain of
  two sprites followed by a chain of none is drawn with two draw calls, the second of
  no index, where \<open>\<lceil>N / C\<rceil> = 1\<close>.
\<close>

theorem DrawBasicSprites_empty_chain_extra_draw:
  "DrawBasicSprites_chains 8 [quads_of 0 2, quads_of 100 0] =
     Some (Inr [FillBuffer [0, 1, 2, 3, 4, 5, 6, 7], DrawIndexedPrimitives 0 12,
                FillBuffer [], DrawIndexedPrimitives 0 0]) \<and>
   maxSpriteCount 8 = 2 \<and>
   total_quads [quads_of 0 2, quads_of 100 0] = 2 \<and>
   length (draw_calls [FillBuffer [0, 1, 2, 3, 4, 5, 6, 7 :: nat], DrawIndexedPrimitives 0 12,
                       FillBuffer [], DrawIndexedPrimitives 0 0]) = 2 \<and>
   (total_quads [quads_of 0 2, quads_of 100 0] + maxSpriteCount 8 - 1) div maxSpriteCount 8 = 1"
  by (simp add: DrawBasicSprites_chains_def maxSpriteCount_def s_maxQuads_def
      draw_sprite_chains.simps fill_sprite_chains.simps size_sub_def memcpy_quads_def
      quads_of_def to_unsigned_int_def upt_rec Let_def total_quads_def)

subsection \<open>Depth-sorted sprites: a chain longer than the buffer\<close>

lemma fill_ordered_resplit:
  assumes "i < length data" and "0 < off" and "off \<le> spriteCount (data ! i)"
  shows "\<exists>buffer off'. fill_ordered data (i # rest) it2 [] avail off = Inr (buffer, off', Some it2) \<and>
           0 < off' \<and> off' \<le> spriteCount (data ! i)"
proof -
  have "size_sub (spriteCount (data ! i)) off = spriteCount (data ! i) - off"
    using assms(3) by (simp add: size_sub_def)
  moreover have "min avail (spriteCount (data ! i) - off) \<noteq> spriteCount (data ! i)"
    using assms(2,3) by arith
  moreover have "off + min avail (spriteCount (data ! i) - off) \<le> spriteCount (data ! i)"
    using assms(3) by arith
  ultimately show ?thesis
    using assms(1,2) by (simp add: Let_def)
qed

lemma stuck_step:
  assumes "stuck data sprites st"
  shows "\<exists>fill st1 draw st2.
           update_vertex_buffer C data sprites st = Inr (fill, st1) \<and> it st1 = it st \<and>
           draw_ordered_chain (data ! (sprites ! it st)) st1 = (draw, st2) \<and>
           stuck data sprites st2"
proof -
  from assms have a: "it st < length sprites" "sprites ! it st < length data"
    "updateVertexBuffer st" "0 < spriteChainOffset st"
    "spriteChainOffset st \<le> spriteCount (data ! (sprites ! it st))"
    by (simp_all add: stuck_def)
  have d: "drop (it st) sprites = sprites ! it st # drop (Suc (it st)) sprites"
    using a(1) by (simp add: Cons_nth_drop_Suc)
  from fill_ordered_resplit [OF a(2) a(4) a(5), of "drop (Suc (it st)) sprites" "it st" C]
  obtain buffer off' where f:
    "fill_ordered data (drop (it st) sprites) (it st) [] C (spriteChainOffset st) =
       Inr (buffer, off', Some (it st))"
    "0 < off'" "off' \<le> spriteCount (data ! (sprites ! it st))"
    unfolding d by blast
  define st1 where "st1 = st\<lparr>spriteChainOffset := off', splitChainIt := it st, spriteIndex := 0,
    updateVertexBuffer := False\<rparr>"
  have u: "update_vertex_buffer C data sprites st = Inr ([FillBuffer buffer], st1)"
    using a(3) f(1) by (simp add: update_vertex_buffer_def st1_def)
  obtain draw st2 where dr: "draw_ordered_chain (data ! (sprites ! it st)) st1 = (draw, st2)"
    by (cases "draw_ordered_chain (data ! (sprites ! it st)) st1") auto
  then have st2: "it st2 = it st" "updateVertexBuffer st2" "spriteChainOffset st2 = off'"
    by (auto simp: draw_ordered_chain_def st1_def Let_def)
  have "stuck data sprites st2"
    using a(1,2) f(2,3) st2 by (simp add: stuck_def)
  with u dr show ?thesis
    by (auto simp: st1_def)
qed

lemma ordered_loop_stuck_no_result:
  assumes "ordered_loop C data sprites effects st = Some y"
  shows "\<not> stuck data sprites st"
  apply (rule ordered_loop.raw_induct
      [where P = "\<lambda>C data sprites effects st y. \<not> stuck data sprites st", OF _ assms])
  subgoal premises prems for loop C data sprites effects st y
  proof
    assume s: "stuck data sprites st"
    then have a: "it st < length sprites" "sprites ! it st < length data"
      by (simp_all add: stuck_def)
    from stuck_step [OF s, of C] obtain fill st1 draw st2 where
      u: "update_vertex_buffer C data sprites st = Inr (fill, st1)" "it st1 = it st"
      and d: "draw_ordered_chain (data ! (sprites ! it st)) st1 = (draw, st2)"
      and s2: "stuck data sprites st2"
      by blast
    from prems(2) a u d have "loop C data sprites (effects @ fill @ [draw]) st2 = Some y"
      by (simp add: Let_def)
    from prems(1) [OF this] s2 show False by simp
  qed
  done

lemma ordered_loop_stuck:
  "stuck data sprites st \<Longrightarrow> ordered_loop C data sprites effects st = None"
  using ordered_loop_stuck_no_result [of C data sprites effects st]
  by (cases "ordered_loop C data sprites effects st") auto

lemma single_chain_diverges:
  assumes "0 < C" and "C < spriteCount chain"
  shows "ordered_loop C [chain] [0] []
           \<lparr>it = 0, updateVertexBuffer = True, alreadyDrawnCount = 0, spriteIndex = 0,
            spriteChainOffset = 0, splitChainIt = length [0::nat]\<rparr> = None"
proof -
  define st0 where "st0 = \<lparr>it = 0, updateVertexBuffer = True, alreadyDrawnCount = 0,
    spriteIndex = 0, spriteChainOffset = 0, splitChainIt = length [0::nat]\<rparr>"
  define st1 where "st1 = st0\<lparr>spriteChainOffset := C, splitChainIt := 0, spriteIndex := 0,
    updateVertexBuffer := False\<rparr>"
  define st2 where "st2 = st1\<lparr>alreadyDrawnCount := C, updateVertexBuffer := True,
    spriteIndex := C\<rparr>"
  have m: "min C (spriteCount chain) = C" "C \<noteq> spriteCount chain"
    using assms(2) by simp_all
  have u: "update_vertex_buffer C [chain] [0] st0 = Inr ([FillBuffer (memcpy_quads chain 0 C)], st1)"
    using m by (simp add: update_vertex_buffer_def st0_def st1_def size_sub_def Let_def)
  have d: "draw_ordered_chain chain st1 =
      (DrawIndexedPrimitives (to_unsigned_int (0 * 6)) (to_unsigned_int (C * 6)), st2)"
    by (simp add: draw_ordered_chain_def st1_def st2_def st0_def)
  have "stuck [chain] [0] st2"
    using assms by (simp add: stuck_def st2_def st1_def st0_def)
  then have "ordered_loop C [chain] [0]
      ([] @ [FillBuffer (memcpy_quads chain 0 C)] @
       [DrawIndexedPrimitives (to_unsigned_int (0 * 6)) (to_unsigned_int (C * 6))]) st2 = None"
    by (rule ordered_loop_stuck)
  moreover have "ordered_loop C [chain] [0] [] st0 = ordered_loop C [chain] [0]
      ([] @ [FillBuffer (memcpy_quads chain 0 C)] @
       [DrawIndexedPrimitives (to_unsigned_int (0 * 6)) (to_unsigned_int (C * 6))]) st2"
    apply (subst ordered_loop.simps)
    using u d apply (simp add: Let_def)
    apply (simp add: st0_def st1_def)
    done
  ultimately show ?thesis
    by (simp add: st0_def)
qed

lemma single_chain_exact:
  assumes "0 < C" and "spriteCount chain = C"
  shows "ordered_loop C [chain] [0] []
           \<lparr>it = 0, updateVertexBuffer = True, alreadyDrawnCount = 0, spriteIndex = 0,
            spriteChainOffset = 0, splitChainIt = length [0::nat]\<rparr> =
         Some (Inr ([FillBuffer (memcpy_quads chain 0 C),
                     DrawIndexedPrimitives 0 (to_unsigned_int (C * 6))],
                    \<lparr>it = 1, updateVertexBuffer = False, alreadyDrawnCount = 0, spriteIndex = C,
                     spriteChainOffset = 0, splitChainIt = 1\<rparr>))"
  apply (subst ordered_loop.simps)
  apply (simp add: update_vertex_buffer_def draw_ordered_chain_def size_sub_def Let_def assms
      to_unsigned_int_def)
  apply (subst ordered_loop.simps)
  apply simp
  done


text \<open>
  Claim C1, at the sprite buffer of the technique: 4 MiB of vertices of 24 bytes, 174762
  vertices, capacity 10922. A single chain of 10922 sprites is drawn with one fill and
  one draw call of 10922 sprites, and leaves no split chain and no offset behind. For a
  single chain of 10923 sprites the loop does not return: after the first draw call of
  10922 sprites it refills and draws the same chain for ever.
\<close>

theorem DrawOrderedSprites_capacity_plus_one:
  "maxSpriteCount 174762 = 10922 \<and>
   DrawOrderedSprites 174762 [\<lparr>vertices = v, spriteCount = 10922\<rparr>] [0] =
     Some (Inr ([FillBuffer (memcpy_quads \<lparr>vertices = v, spriteCount = 10922\<rparr> 0 10922),
                 DrawIndexedPrimitives 0 65532],
                \<lparr>it = 1, updateVertexBuffer = False, alreadyDrawnCount = 0, spriteIndex = 10922,
                 spriteChainOffset = 0, splitChainIt = 1\<rparr>)) \<and>
   DrawOrderedSprites 174762 [\<lparr>vertices = v, spriteCount = 10923\<rparr>] [0] = None"
proof -
  have m: "maxSpriteCount 174762 = 10922"
    by (simp add: maxSpriteCount_def s_maxQuads_def)
  have "DrawOrderedSprites 174762 [\<lparr>vertices = v, spriteCount = 10923\<rparr>] [0] = None"
    unfolding DrawOrderedSprites_def m
    by (rule single_chain_diverges) simp_all
  moreover have "DrawOrderedSprites 174762 [\<lparr>vertices = v, spriteCount = 10922\<rparr>] [0] =
     Some (Inr ([FillBuffer (memcpy_quads \<lparr>vertices = v, spriteCount = 10922\<rparr> 0 10922),
                 DrawIndexedPrimitives 0 65532],
                \<lparr>it = 1, updateVertexBuffer = False, alreadyDrawnCount = 0, spriteIndex = 10922,
                 spriteChainOffset = 0, splitChainIt = 1\<rparr>))"
    unfolding DrawOrderedSprites_def m
    using single_chain_exact [of 10922 "\<lparr>vertices = v, spriteCount = 10922\<rparr>"]
    by (simp add: to_unsigned_int_def)
  ultimately show ?thesis
    using m by simp
qed

text \<open>
  Claim C9 fails whenever a single chain has more sprites than the buffer takes: with a
  capacity of at least 1 (a buffer of at least four vertices), the loop of
  \<^verbatim>\<open>DrawOrderedSprites\<close> does not return for such a chain.
\<close>

theorem DrawOrderedSprites_long_chain_never_returns:
  assumes "4 \<le> vertexCount" and "maxSpriteCount vertexCount < spriteCount chain"
  shows "DrawOrderedSprites vertexCount [chain] [0] = None"
  unfolding DrawOrderedSprites_def
  using maxSpriteCount_bounds(1) [OF assms(1)] assms(2)
  by (rule single_chain_diverges)

theorem DrawOrderedSprites_long_chain_never_returns_witness:
  "(4::nat) \<le> 8 \<and> maxSpriteCount 8 < spriteCount (quads_of 0 5) \<and>
   DrawOrderedSprites 8 [quads_of 0 5] [0] = None"
proof -
  have v: "(4::nat) \<le> 8" by simp
  have c: "maxSpriteCount 8 < spriteCount (quads_of 0 5)"
    by (simp add: maxSpriteCount_def s_maxQuads_def quads_of_def)
  show ?thesis
    using DrawOrderedSprites_long_chain_never_returns [OF v c] v c by simp
qed


end
